theory Spec2Isabelle
  imports Main
begin

section \<open>Column values and SQL three-valued logic\<close>

text \<open>
  Every column of the schemas in \<^verbatim>\<open>db_utils.get_metadata\<close> is nullable, so a column
  value is an \<open>option\<close>: \<open>None\<close> is SQL NULL. A \<open>DateType\<close> value is a number of days
  since 1970-01-01 and a \<open>TimestampType\<close> value a number of microseconds since the epoch,
  as the engine stores them. The integers of a batch are taken within the range of
  \<open>LongType\<close>, the type that \<^verbatim>\<open>createDataFrame\<close> infers for them; they are plain integers,
  and the one cast that changes a value, to \<open>IntegerType\<close>, is written out.
\<close>

type_synonym date = int
type_synonym timestamp = int

text \<open>The date literal \<^verbatim>\<open>9999-12-31\<close>: 2932896 days after 1970-01-01.\<close>

definition date_9999_12_31 :: date where
  "date_9999_12_31 = 2932896"

text \<open>
  Column comparison (\<^verbatim>\<open>==\<close>, \<^verbatim>\<open>!=\<close>, \<^verbatim>\<open>=\<close> in a merge condition, \<^verbatim>\<open>>\<close>) is NULL as soon
  as one operand is NULL; \<^verbatim>\<open>&\<close>/\<^verbatim>\<open>AND\<close> and \<^verbatim>\<open>|\<close> are Kleene's connectives. A filter, a join
  condition and a merge condition keep a row only where the predicate is TRUE.
\<close>

definition sql_eq :: "'a option \<Rightarrow> 'a option \<Rightarrow> bool option" where
  "sql_eq a b = (case a of None \<Rightarrow> None
                 | Some x \<Rightarrow> (case b of None \<Rightarrow> None | Some y \<Rightarrow> Some (x = y)))"

definition sql_ne :: "'a option \<Rightarrow> 'a option \<Rightarrow> bool option" where
  "sql_ne a b = (case a of None \<Rightarrow> None
                 | Some x \<Rightarrow> (case b of None \<Rightarrow> None | Some y \<Rightarrow> Some (x \<noteq> y)))"

definition sql_gt :: "int option \<Rightarrow> int option \<Rightarrow> bool option" where
  "sql_gt a b = (case a of None \<Rightarrow> None
                 | Some x \<Rightarrow> (case b of None \<Rightarrow> None | Some y \<Rightarrow> Some (x > y)))"

definition sql_and :: "bool option \<Rightarrow> bool option \<Rightarrow> bool option" where
  "sql_and p q = (if p = Some False \<or> q = Some False then Some False
                  else if p = Some True \<and> q = Some True then Some True else None)"

definition sql_or :: "bool option \<Rightarrow> bool option \<Rightarrow> bool option" where
  "sql_or p q = (if p = Some True \<or> q = Some True then Some True
                 else if p = Some False \<and> q = Some False then Some False else None)"

definition isNotNull :: "'a option \<Rightarrow> bool option" where
  "isNotNull a = Some (a \<noteq> None)"

definition isNull :: "'a option \<Rightarrow> bool option" where
  "isNull a = Some (a = None)"

definition sql_filter :: "('a \<Rightarrow> bool option) \<Rightarrow> 'a list \<Rightarrow> 'a list" where
  "sql_filter p xs = filter (\<lambda>x. p x = Some True) xs"

section \<open>Rows\<close>

text \<open>
  A record of the extracted batch has the seven source columns; a row of
  \<^verbatim>\<open>dim_customers_scd\<close> has the three versioning columns as well.
\<close>

record customer =
  customer_id :: "int option"
  first_name :: "string option"
  last_name :: "string option"
  email :: "string option"
  phone :: "string option"
  number_of_orders :: "int option"
  updated_at :: "timestamp option"

record dim_row = customer +
  effective_start_date :: "date option"
  effective_end_date :: "date option"
  is_active :: "bool option"

datatype error =
  DeltaTableMissing | CannotDetermineType | MultipleSourceRowsMatched
  | GlueClientError string | RelationMissing

text \<open>
  \<^verbatim>\<open>spark.createDataFrame(new_data)\<close> is given no schema and infers one from the records:
  it raises when some column is None in every record, and it is reached with a batch
  that is not empty.
\<close>

definition has_value :: "(customer \<Rightarrow> 'a option) \<Rightarrow> customer list \<Rightarrow> bool" where
  "has_value column new_data = list_ex (\<lambda>c. column c \<noteq> None) new_data"

definition types_determined :: "customer list \<Rightarrow> bool" where
  "types_determined new_data =
     (has_value customer_id new_data \<and> has_value first_name new_data \<and>
      has_value last_name new_data \<and> has_value email new_data \<and>
      has_value phone new_data \<and> has_value number_of_orders new_data \<and>
      has_value updated_at new_data)"

definition createDataFrame :: "customer list \<Rightarrow> error + customer list" where
  "createDataFrame new_data =
     (if types_determined new_data then Inr new_data else Inl CannotDetermineType)"

text \<open>
  \<^verbatim>\<open>new_df\<close>: the three versioning columns are added as NULL literals.
  \<^verbatim>\<open>cast_to_schema\<close> casts every column to the type of the table's schema: the inferred
  types are those of the schema but for \<^verbatim>\<open>number_of_orders\<close>, inferred \<open>LongType\<close> and cast
  to \<open>IntegerType\<close>, which keeps the low 32 bits as a signed number.
\<close>

definition withColumns :: "customer \<Rightarrow> dim_row" where
  "withColumns c =
     \<lparr>customer_id = customer_id c, first_name = first_name c,
      last_name = last_name c, email = email c, phone = phone c,
      number_of_orders = number_of_orders c, updated_at = updated_at c,
      effective_start_date = None, effective_end_date = None, is_active = None\<rparr>"

definition to_IntegerType :: "int \<Rightarrow> int" where
  "to_IntegerType n = (n + 2147483648) mod 4294967296 - 2147483648"

definition cast_to_schema :: "dim_row \<Rightarrow> dim_row" where
  "cast_to_schema r = r\<lparr>number_of_orders := map_option to_IntegerType (number_of_orders r)\<rparr>"

definition new_df_casted :: "customer list \<Rightarrow> dim_row list" where
  "new_df_casted new_data = map cast_to_schema (map withColumns new_data)"

text \<open>\<^verbatim>\<open>delta_df\<close>: the rows of the table whose \<^verbatim>\<open>is_active == True\<close> is TRUE.\<close>

definition delta_df :: "dim_row list \<Rightarrow> dim_row list" where
  "delta_df tbl = sql_filter (\<lambda>r. sql_eq (is_active r) (Some True)) tbl"

section \<open>The left join and the three row groups\<close>

text \<open>
  A row of \<^verbatim>\<open>joined\<close> is a source row with the matched target row, or with no target row,
  in which case every \<^verbatim>\<open>tgt.\<close> column reads NULL.
\<close>

type_synonym joined_row = "dim_row \<times> dim_row option"

definition src :: "(dim_row \<Rightarrow> 'a option) \<Rightarrow> joined_row \<Rightarrow> 'a option" where
  "src f j = f (fst j)"

definition tgt :: "(dim_row \<Rightarrow> 'a option) \<Rightarrow> joined_row \<Rightarrow> 'a option" where
  "tgt f j = (case snd j of None \<Rightarrow> None | Some t \<Rightarrow> f t)"

definition join_matches :: "dim_row \<Rightarrow> dim_row list \<Rightarrow> dim_row list" where
  "join_matches s ts = sql_filter (\<lambda>t. sql_eq (customer_id t) (customer_id s)) ts"

definition left_join_row :: "dim_row list \<Rightarrow> dim_row \<Rightarrow> joined_row list" where
  "left_join_row ts s =
     (case join_matches s ts of [] \<Rightarrow> [(s, None)] | ms \<Rightarrow> map (\<lambda>t. (s, Some t)) ms)"

definition joined :: "dim_row list \<Rightarrow> dim_row list \<Rightarrow> joined_row list" where
  "joined srcs tgts = concat (map (left_join_row tgts) srcs)"

text \<open>The filter condition that lines 47-53 and 70-76 both spell out.\<close>

definition changed_cond :: "joined_row \<Rightarrow> bool option" where
  "changed_cond j =
     sql_and (sql_eq (tgt customer_id j) (src customer_id j))
       (sql_or (sql_or (sql_or (sql_or
          (sql_ne (tgt first_name j) (src first_name j))
          (sql_ne (tgt last_name j) (src last_name j)))
          (sql_ne (tgt email j) (src email j)))
          (sql_ne (tgt phone j) (src phone j)))
          (sql_ne (tgt number_of_orders j) (src number_of_orders j)))"

definition new_version_row :: "date \<Rightarrow> joined_row \<Rightarrow> dim_row" where
  "new_version_row current_date_utc j =
     \<lparr>customer_id = src customer_id j, first_name = src first_name j,
      last_name = src last_name j, email = src email j, phone = src phone j,
      number_of_orders = src number_of_orders j, updated_at = src updated_at j,
      effective_start_date = Some current_date_utc,
      effective_end_date = Some date_9999_12_31,
      is_active = Some True\<rparr>"

definition closed_version_row :: "date \<Rightarrow> joined_row \<Rightarrow> dim_row" where
  "closed_version_row current_date_utc j =
     \<lparr>customer_id = tgt customer_id j, first_name = tgt first_name j,
      last_name = tgt last_name j, email = tgt email j, phone = tgt phone j,
      number_of_orders = tgt number_of_orders j, updated_at = tgt updated_at j,
      effective_start_date = tgt effective_start_date j,
      effective_end_date = Some current_date_utc,
      is_active = Some False\<rparr>"

definition updated_new_records :: "date \<Rightarrow> joined_row list \<Rightarrow> dim_row list" where
  "updated_new_records current_date_utc js =
     map (new_version_row current_date_utc) (sql_filter changed_cond js)"

definition updated_old_records :: "date \<Rightarrow> joined_row list \<Rightarrow> dim_row list" where
  "updated_old_records current_date_utc js =
     map (closed_version_row current_date_utc) (sql_filter changed_cond js)"

definition new_key_cond :: "joined_row \<Rightarrow> bool option" where
  "new_key_cond j = sql_and (isNotNull (src customer_id j)) (isNull (tgt customer_id j))"

definition new_records :: "date \<Rightarrow> joined_row list \<Rightarrow> dim_row list" where
  "new_records current_date_utc js =
     map (new_version_row current_date_utc) (sql_filter new_key_cond js)"

definition final_changes :: "date \<Rightarrow> dim_row list \<Rightarrow> customer list \<Rightarrow> dim_row list" where
  "final_changes current_date_utc tbl new_data =
     (let js = joined (new_df_casted new_data) (delta_df tbl)
      in updated_old_records current_date_utc js
         @ updated_new_records current_date_utc js
         @ new_records current_date_utc js)"

section \<open>The merge of the Delta table\<close>

text \<open>The merge condition of lines 119-124, \<open>t\<close> the stored row and \<open>s\<close> the changeset row.\<close>

definition merge_cond :: "dim_row \<Rightarrow> dim_row \<Rightarrow> bool option" where
  "merge_cond t s =
     sql_and (sql_and (sql_and (sql_and (sql_and
       (sql_eq (customer_id t) (customer_id s))
       (sql_eq (email t) (email s)))
       (sql_eq (first_name t) (first_name s)))
       (sql_eq (last_name t) (last_name s)))
       (sql_eq (phone t) (phone s)))
       (sql_eq (number_of_orders t) (number_of_orders s))"

text \<open>
  \<^verbatim>\<open>merge(...).whenMatchedUpdateAll().whenNotMatchedInsertAll().execute()\<close>, as Delta Lake
  documents it: a stored row on which the condition is TRUE for one changeset row takes
  all the columns of that row; a changeset row for which the condition is TRUE on no
  stored row is inserted; a stored row matched by more than one changeset row makes the
  whole merge fail and leaves the table as it was. The order of the rows of a table
  carries no meaning: the model keeps stored rows in place and appends the inserted ones.
\<close>

definition matching_sources :: "dim_row list \<Rightarrow> dim_row \<Rightarrow> dim_row list" where
  "matching_sources changes t = sql_filter (merge_cond t) changes"

definition matched_rows :: "dim_row list \<Rightarrow> dim_row \<Rightarrow> dim_row list" where
  "matched_rows tbl s = sql_filter (\<lambda>t. merge_cond t s) tbl"

definition update_all :: "dim_row list \<Rightarrow> dim_row \<Rightarrow> dim_row" where
  "update_all changes t = (case matching_sources changes t of [] \<Rightarrow> t | s # _ \<Rightarrow> s)"

definition inserted_rows :: "dim_row list \<Rightarrow> dim_row list \<Rightarrow> dim_row list" where
  "inserted_rows tbl changes = filter (\<lambda>s. matched_rows tbl s = []) changes"

definition delta_merge :: "dim_row list \<Rightarrow> dim_row list \<Rightarrow> error + dim_row list" where
  "delta_merge tbl changes =
     (if list_ex (\<lambda>t. length (matching_sources changes t) > 1) tbl
      then Inl MultipleSourceRowsMatched
      else Inr (map (update_all changes) tbl @ inserted_rows tbl changes))"

section \<open>The rows of \<^verbatim>\<open>future_orders_etl_job\<close>\<close>

text \<open>
  The \<^verbatim>\<open>orders\<close> and \<^verbatim>\<open>future_orders\<close> schemas of \<^verbatim>\<open>db_utils.get_metadata\<close>. A column whose
  name a customer column already has carries a suffix. \<^verbatim>\<open>total_price\<close> is a decimal with
  four places, kept as the number of ten-thousandths.
\<close>

record orders_row =
  order_id :: "int option"
  order_name :: "string option"
  created_at :: "timestamp option"
  processed_at :: "timestamp option"
  updated_at_o :: "timestamp option"
  financial_status :: "string option"
  customer_id_o :: "int option"
  total_price :: "int option"
  draft_type :: "string option"
  theme :: "string option"
  flavor :: "string option"
  allergies :: "string option"
  pickup_date :: "timestamp option"

record future_orders_row =
  order_name_f :: "string option"
  first_name_f :: "string option"
  financial_status_f :: "string option"
  draft_type_f :: "string option"
  theme_f :: "string option"
  flavor_f :: "string option"
  allergies_f :: "string option"
  pickup_date_f :: "timestamp option"

section \<open>The crawler trigger\<close>

text \<open>
  What the Glue client does is the environment's choice. \<^verbatim>\<open>boto3.client(...)\<close> is called
  before the \<^verbatim>\<open>try\<close> block: it raises, or it gives a client. \<^verbatim>\<open>client.start_crawler\<close> is
  called inside the block: it returns a response, raises \<^verbatim>\<open>CrawlerRunningException\<close>, or
  raises another exception, and each of these three branches prints and returns.
\<close>

datatype start_crawler_outcome =
  Started string | CrawlerRunningException | OtherException string

datatype glue_client = ClientRaises string | Client start_crawler_outcome

datatype event =
  Print string | MergeExecuted "dim_row list" | StartCrawler string
  | OverwriteSaved "future_orders_row list"

definition start_crawler :: "start_crawler_outcome \<Rightarrow> string \<Rightarrow> event list" where
  "start_crawler outcome crawler_name =
     StartCrawler crawler_name #
     (case outcome of
        Started response \<Rightarrow>
          [Print (''Crawler '' @ crawler_name @ '' started successfully.''), Print response]
      | CrawlerRunningException \<Rightarrow>
          [Print (''Crawler '' @ crawler_name @ '' is already running.'')]
      | OtherException e \<Rightarrow> [Print (''An error occurred: '' @ e)])"

definition run_glue_crawler :: "glue_client \<Rightarrow> string \<Rightarrow> error + event list" where
  "run_glue_crawler glue crawler_name =
     (case glue of
        ClientRaises e \<Rightarrow> Inl (GlueClientError e)
      | Client outcome \<Rightarrow> Inr (start_crawler outcome crawler_name))"

section \<open>The job \<^verbatim>\<open>dim_customers_scd_etl_job\<close>\<close>

text \<open>
  The state is the Delta table at the table's path (\<open>None\<close> when there is no Delta table
  there) and the trace of what the run did. The run date, the extracted batch and what
  the Glue client does are inputs. A run that raises gives the error with the state it
  leaves: an exception after the merge does not undo the merge.
\<close>

record world =
  dim_customers_scd :: "dim_row list option"
  bmd_orders :: "orders_row list"
  future_orders :: "future_orders_row list"
  trace :: "event list"

definition emit :: "event list \<Rightarrow> world \<Rightarrow> world" where
  "emit es w = w\<lparr>trace := trace w @ es\<rparr>"

definition dim_customers_scd_etl_job ::
  "glue_client \<Rightarrow> date \<Rightarrow> customer list \<Rightarrow> world \<Rightarrow> error \<times> world + world" where
  "dim_customers_scd_etl_job glue current_date_utc new_data w =
     (case dim_customers_scd w of
        None \<Rightarrow> Inl (DeltaTableMissing, w)
      | Some tbl \<Rightarrow>
          if new_data = []
          then Inr (emit [Print ''There is no change, hence df is empty. Nothing to write!''] w)
          else
            (case createDataFrame new_data of
               Inl e \<Rightarrow> Inl (e, w)
             | Inr df \<Rightarrow>
                 (let changes = final_changes current_date_utc tbl df;
                      w1 = emit [Print ''Casting dataframe to schema'',
                                 Print ''Schema Casting is completed.'',
                                 Print ''Performing Writing Operation''] w
                  in case delta_merge tbl changes of
                       Inl e \<Rightarrow> Inl (e, w1)
                     | Inr tbl' \<Rightarrow>
                         (let w2 = emit [MergeExecuted changes,
                                         Print ''writing operation is completed'']
                                     (w1\<lparr>dim_customers_scd := Some tbl'\<rparr>)
                          in case run_glue_crawler glue ''dimCustomersScdCrawler'' of
                               Inl e \<Rightarrow> Inl (e, w2)
                             | Inr crawled \<Rightarrow>
                                 Inr (emit (crawled @ [Print ''Crawler run is completed''])
                                        w2)))))"

section \<open>The job \<^verbatim>\<open>future_orders_etl_job\<close>\<close>

text \<open>
  The query of lines 14-48, read as relational algebra. \<^verbatim>\<open>current_date\<close> is the query
  engine's date; compared with a timestamp it stands for the midnight that starts it.
\<close>

definition date_to_timestamp :: "date \<Rightarrow> timestamp" where
  "date_to_timestamp d = d * 86400000000"

definition orders_cte :: "date \<Rightarrow> orders_row list \<Rightarrow> orders_row list" where
  "orders_cte current_date os =
     sql_filter (\<lambda>r. sql_gt (pickup_date r) (Some (date_to_timestamp current_date))) os"

definition customers_cte :: "dim_row list \<Rightarrow> dim_row list" where
  "customers_cte tbl = sql_filter (\<lambda>c. sql_eq (is_active c) (Some True)) tbl"

definition inner_join :: "dim_row list \<Rightarrow> orders_row list \<Rightarrow> (dim_row \<times> orders_row) list" where
  "inner_join cs os =
     concat (map (\<lambda>c. map (\<lambda>r. (c, r))
                         (sql_filter (\<lambda>r. sql_eq (customer_id c) (customer_id_o r)) os)) cs)"

definition select_fields :: "dim_row \<times> orders_row \<Rightarrow> future_orders_row" where
  "select_fields co =
     (case co of (c, r) \<Rightarrow>
        \<lparr>order_name_f = order_name r, first_name_f = first_name c,
         financial_status_f = financial_status r, draft_type_f = draft_type r,
         theme_f = theme r, flavor_f = flavor r, allergies_f = allergies r,
         pickup_date_f = pickup_date r\<rparr>)"

text \<open>\<^verbatim>\<open>ORDER BY\<close> ascending, NULL after every value; an insertion sort is one such order.\<close>

definition pickup_le :: "timestamp option \<Rightarrow> timestamp option \<Rightarrow> bool" where
  "pickup_le a b = (case b of None \<Rightarrow> True
                    | Some y \<Rightarrow> (case a of None \<Rightarrow> False | Some x \<Rightarrow> x \<le> y))"

fun insert_by_pickup :: "future_orders_row \<Rightarrow> future_orders_row list \<Rightarrow> future_orders_row list" where
  "insert_by_pickup r [] = [r]"
| "insert_by_pickup r (x # xs) =
     (if pickup_le (pickup_date_f r) (pickup_date_f x) then r # x # xs
      else x # insert_by_pickup r xs)"

fun order_by_pickup :: "future_orders_row list \<Rightarrow> future_orders_row list" where
  "order_by_pickup [] = []"
| "order_by_pickup (r # rs) = insert_by_pickup r (order_by_pickup rs)"

definition future_orders_query ::
  "date \<Rightarrow> orders_row list \<Rightarrow> dim_row list \<Rightarrow> future_orders_row list" where
  "future_orders_query current_date os tbl =
     order_by_pickup
       (map select_fields (inner_join (customers_cte tbl) (orders_cte current_date os)))"

text \<open>
  The job: the query runs on \<^verbatim>\<open>bmd.orders\<close> and \<^verbatim>\<open>bmd.dim_customers_scd\<close>, its result is
  saved in overwrite mode, and the crawler is triggered. A query on a missing relation
  fails before anything is written; a Glue client that cannot be made raises after the
  result is saved.
\<close>

definition future_orders_etl_job ::
  "glue_client \<Rightarrow> date \<Rightarrow> world \<Rightarrow> error \<times> world + world" where
  "future_orders_etl_job glue current_date w =
     (case dim_customers_scd w of
        None \<Rightarrow> Inl (RelationMissing, w)
      | Some tbl \<Rightarrow>
          (let result = future_orders_query current_date (bmd_orders w) tbl;
               w1 = emit [OverwriteSaved result] (w\<lparr>future_orders := result\<rparr>)
           in case run_glue_crawler glue ''weeklyStreamlineOrdersCrawler'' of
                Inl e \<Rightarrow> Inl (e, w1)
              | Inr crawled \<Rightarrow> Inr (emit crawled w1)))"

section \<open>Notions used in the statements\<close>

text \<open>Two column values differ when both are present and unequal.\<close>

definition differs :: "'a option \<Rightarrow> 'a option \<Rightarrow> bool" where
  "differs a b = (a \<noteq> None \<and> b \<noteq> None \<and> a \<noteq> b)"

text \<open>The natural key of a row with its tracked attributes, and rows that have them all.\<close>

definition tracked ::
  "'a customer_scheme \<Rightarrow>
     int option \<times> string option \<times> string option \<times> string option \<times> string option \<times> int option" where
  "tracked r =
     (customer_id r, email r, first_name r, last_name r, phone r, number_of_orders r)"

definition complete :: "'a customer_scheme \<Rightarrow> bool" where
  "complete r =
     (customer_id r \<noteq> None \<and> email r \<noteq> None \<and> first_name r \<noteq> None \<and>
      last_name r \<noteq> None \<and> phone r \<noteq> None \<and> number_of_orders r \<noteq> None)"

text \<open>The active rows of a key, and the single-active invariant of a table.\<close>

definition active_rows_of :: "int option \<Rightarrow> dim_row list \<Rightarrow> dim_row list" where
  "active_rows_of k tbl = filter (\<lambda>r. customer_id r = k \<and> is_active r = Some True) tbl"

definition single_active :: "dim_row list \<Rightarrow> bool" where
  "single_active tbl = list_all (\<lambda>r. length (active_rows_of (customer_id r) tbl) = 1) tbl"

text \<open>
  The invariant of the table that a run keeps: single-active, every row has its natural
  key and tracked attributes, and no two rows have the same key and tracked attributes.
  A batch that keeps it has its keys and tracked attributes too, each key once, and, when
  it is not empty, a value in some record for every column, so that the types of its
  columns can be inferred.
\<close>

definition scd_inv :: "dim_row list \<Rightarrow> bool" where
  "scd_inv tbl = (single_active tbl \<and> list_all complete tbl \<and> distinct (map tracked tbl))"

definition batch_ok :: "customer list \<Rightarrow> bool" where
  "batch_ok new_data =
     (list_all complete new_data \<and> distinct (map customer_id new_data) \<and>
      (new_data = [] \<or> types_determined new_data))"

text \<open>The row of \<^verbatim>\<open>new_df_casted\<close> that a batch record becomes.\<close>

definition casted :: "customer \<Rightarrow> dim_row" where
  "casted c = cast_to_schema (withColumns c)"

text \<open>The state that a run leaves, whether it returns or raises.\<close>

definition state_after :: "error \<times> world + world \<Rightarrow> world" where
  "state_after r = (case r of Inl (e, w) \<Rightarrow> w | Inr w \<Rightarrow> w)"

definition client_created :: "glue_client \<Rightarrow> bool" where
  "client_created glue = (case glue of ClientRaises e \<Rightarrow> False | Client outcome \<Rightarrow> True)"

text \<open>
  What a run makes of the table once the types of the batch are inferred: nothing for an
  empty batch, the merge otherwise.
\<close>

definition reconcile :: "date \<Rightarrow> customer list \<Rightarrow> dim_row list \<Rightarrow> error + dim_row list" where
  "reconcile current_date_utc new_data tbl =
     (if new_data = [] then Inr tbl
      else delta_merge tbl (final_changes current_date_utc tbl new_data))"

text \<open>Runs of the job one after the other, until one fails.\<close>

fun run_jobs ::
  "(glue_client \<times> date \<times> customer list) list \<Rightarrow> world \<Rightarrow> error \<times> world + world" where
  "run_jobs [] w = Inr w"
| "run_jobs ((glue, d, new_data) # runs) w =
     (case dim_customers_scd_etl_job glue d new_data w of
        Inl e \<Rightarrow> Inl e
      | Inr w' \<Rightarrow> run_jobs runs w')"

text \<open>The rows a joined pair puts in each of the three groups.\<close>

definition rows_of_pair :: "date \<Rightarrow> joined_row \<Rightarrow> dim_row list \<times> dim_row list \<times> dim_row list" where
  "rows_of_pair current_date_utc j =
     (updated_old_records current_date_utc [j],
      updated_new_records current_date_utc [j],
      new_records current_date_utc [j])"

text \<open>The row that a batch record is written as on the run date.\<close>

definition new_row_of :: "date \<Rightarrow> 'a customer_scheme \<Rightarrow> dim_row" where
  "new_row_of run_date c =
     \<lparr>customer_id = customer_id c, first_name = first_name c,
      last_name = last_name c, email = email c, phone = phone c,
      number_of_orders = number_of_orders c, updated_at = updated_at c,
      effective_start_date = Some run_date,
      effective_end_date = Some date_9999_12_31, is_active = Some True\<rparr>"

text \<open>The stored row as it is once closed on the run date.\<close>

definition closed_row_of :: "date \<Rightarrow> dim_row \<Rightarrow> dim_row" where
  "closed_row_of run_date t = t\<lparr>effective_end_date := Some run_date, is_active := Some False\<rparr>"

subsection \<open>Example rows\<close>

text \<open>
  Customer 1 is stored since 2024-01-01 (day 19723) with two orders; the batch of
  2024-06-01 (day 19875) has customer 1 with three orders and customer 2, unknown so far.
\<close>

definition alice_stored :: dim_row where
  "alice_stored =
     \<lparr>customer_id = Some 1, first_name = Some ''Alice'', last_name = Some ''Archer'',
      email = Some ''alice@example.com'', phone = Some ''555-0101'',
      number_of_orders = Some 2, updated_at = Some 1704067200000000,
      effective_start_date = Some 19723, effective_end_date = Some date_9999_12_31,
      is_active = Some True\<rparr>"

definition alice_batch :: customer where
  "alice_batch =
     \<lparr>customer_id = Some 1, first_name = Some ''Alice'', last_name = Some ''Archer'',
      email = Some ''alice@example.com'', phone = Some ''555-0101'',
      number_of_orders = Some 3, updated_at = Some 1717200000000000\<rparr>"

definition bob_batch :: customer where
  "bob_batch =
     \<lparr>customer_id = Some 2, first_name = Some ''Bob'', last_name = Some ''Baker'',
      email = Some ''bob@example.com'', phone = Some ''555-0102'',
      number_of_orders = Some 1, updated_at = Some 1717200000000000\<rparr>"

definition world0 :: world where
  "world0 = \<lparr>dim_customers_scd = Some [alice_stored], bmd_orders = [],
             future_orders = [], trace = []\<rparr>"

definition alice_no_phone :: customer where
  "alice_no_phone = alice_batch\<lparr>number_of_orders := Some 2, phone := None\<rparr>"

definition anonymous_batch :: customer where
  "anonymous_batch = bob_batch\<lparr>customer_id := None\<rparr>"

definition merged_example :: "dim_row list" where
  "merged_example =
     [alice_stored\<lparr>effective_end_date := Some 19875, is_active := Some False\<rparr>,
      \<lparr>customer_id = Some 1, first_name = Some ''Alice'', last_name = Some ''Archer'',
       email = Some ''alice@example.com'', phone = Some ''555-0101'',
       number_of_orders = Some 3, updated_at = Some 1717200000000000,
       effective_start_date = Some 19875, effective_end_date = Some date_9999_12_31,
       is_active = Some True\<rparr>,
      \<lparr>customer_id = Some 2, first_name = Some ''Bob'', last_name = Some ''Baker'',
       email = Some ''bob@example.com'', phone = Some ''555-0102'',
       number_of_orders = Some 1, updated_at = Some 1717200000000000,
       effective_start_date = Some 19875, effective_end_date = Some date_9999_12_31,
       is_active = Some True\<rparr>]"

text \<open>
  Three orders of customer 1, picked up on 2024-07-01, on 2024-06-10 at 10:00 and on
  2024-05-01, and an extract left by an earlier run.
\<close>

definition order_of :: "string \<Rightarrow> timestamp \<Rightarrow> orders_row" where
  "order_of name pickup =
     \<lparr>order_id = Some 7, order_name = Some name, created_at = None, processed_at = None,
      updated_at_o = None, financial_status = Some ''paid'', customer_id_o = Some 1,
      total_price = Some 450000, draft_type = None, theme = Some ''garden'',
      flavor = Some ''lemon'', allergies = None, pickup_date = Some pickup\<rparr>"

definition extract_of :: "string \<Rightarrow> timestamp \<Rightarrow> future_orders_row" where
  "extract_of name pickup =
     \<lparr>order_name_f = Some name, first_name_f = Some ''Alice'',
      financial_status_f = Some ''paid'', draft_type_f = None, theme_f = Some ''garden'',
      flavor_f = Some ''lemon'', allergies_f = None, pickup_date_f = Some pickup\<rparr>"

definition world_orders :: world where
  "world_orders =
     \<lparr>dim_customers_scd = Some [alice_stored],
      bmd_orders = [order_of ''#1003'' 1719792000000000, order_of ''#1002'' 1718013600000000,
                    order_of ''#1001'' 1714521600000000],
      future_orders = [extract_of ''#0999'' 1709251200000000],
      trace = []\<rparr>"

text \<open>
  Customer 1 with a closed version only, a batch record with the values of that
  version, and a stored row of customer 1 with no phone.
\<close>

definition alice_closed :: dim_row where
  "alice_closed = alice_stored\<lparr>effective_end_date := Some 19800, is_active := Some False\<rparr>"

definition alice_same :: customer where
  "alice_same = alice_batch\<lparr>number_of_orders := Some 2\<rparr>"

definition alice_stored_no_phone :: dim_row where
  "alice_stored_no_phone = alice_stored\<lparr>phone := None\<rparr>"

text \<open>A closed version of customer 1 that had three orders, as the batch has again.\<close>

definition alice_three_closed :: dim_row where
  "alice_three_closed =
     (new_row_of 19600 alice_batch)\<lparr>effective_end_date := Some 19723, is_active := Some False\<rparr>"

text \<open>A second closed version with three orders, and a world with an empty table.\<close>

definition alice_three_closed_again :: dim_row where
  "alice_three_closed_again =
     alice_three_closed\<lparr>effective_start_date := Some 19000, effective_end_date := Some 19600\<rparr>"

definition world_empty :: world where
  "world_empty = world0\<lparr>dim_customers_scd := Some []\<rparr>"

text \<open>Customer 1 with as many orders as three and two to the power of 32.\<close>

definition alice_many :: customer where
  "alice_many = alice_batch\<lparr>number_of_orders := Some 4294967299\<rparr>"

section \<open>Three-valued logic: when a condition is TRUE\<close>

lemma sql_and_True: "sql_and p q = Some True \<longleftrightarrow> p = Some True \<and> q = Some True"
  by (auto simp: sql_and_def)

lemma sql_or_True: "sql_or p q = Some True \<longleftrightarrow> p = Some True \<or> q = Some True"
  by (auto simp: sql_or_def)

lemma sql_eq_True: "sql_eq a b = Some True \<longleftrightarrow> a \<noteq> None \<and> a = b"
  by (auto simp: sql_eq_def split: option.splits)

lemma sql_ne_True: "sql_ne a b = Some True \<longleftrightarrow> differs a b"
  by (auto simp: sql_ne_def differs_def split: option.splits)

lemma isNotNull_True: "isNotNull a = Some True \<longleftrightarrow> a \<noteq> None"
  by (simp add: isNotNull_def)

lemma isNull_True: "isNull a = Some True \<longleftrightarrow> a = None"
  by (simp add: isNull_def)

lemmas sql_True = sql_and_True sql_or_True sql_eq_True sql_ne_True isNotNull_True isNull_True

lemma set_sql_filter: "set (sql_filter p xs) = {x \<in> set xs. p x = Some True}"
  by (simp add: sql_filter_def)

lemma sql_filter_append: "sql_filter p (xs @ ys) = sql_filter p xs @ sql_filter p ys"
  by (simp add: sql_filter_def)

lemma sql_filter_Nil: "sql_filter p [] = []"
  by (simp add: sql_filter_def)

lemma sql_filter_Cons:
  "sql_filter p (x # xs) = (if p x = Some True then x # sql_filter p xs else sql_filter p xs)"
  by (simp add: sql_filter_def)

section \<open>The conditions of the three groups\<close>

lemma changed_cond_pair:
  "changed_cond (s, Some t) = Some True \<longleftrightarrow>
     customer_id t \<noteq> None \<and> customer_id t = customer_id s \<and>
     (differs (first_name t) (first_name s) \<or> differs (last_name t) (last_name s) \<or>
      differs (email t) (email s) \<or> differs (phone t) (phone s) \<or>
      differs (number_of_orders t) (number_of_orders s))"
  by (auto simp: changed_cond_def src_def tgt_def sql_True)

lemma changed_cond_None: "changed_cond (s, None) \<noteq> Some True"
  by (simp add: changed_cond_def tgt_def sql_True)

lemma new_key_cond_iff:
  "new_key_cond (s, topt) = Some True \<longleftrightarrow>
     customer_id s \<noteq> None \<and> (case topt of None \<Rightarrow> True | Some t \<Rightarrow> customer_id t = None)"
  by (auto simp: new_key_cond_def src_def tgt_def sql_True split: option.splits)

section \<open>Change detection\<close>

text \<open>
  Claim C3, as the code has it. For a batch row \<open>s\<close> joined with the active row \<open>t\<close> of the
  same natural key, the pair is classified as changed if and only if some tracked
  attribute (first name, last name, email, phone, number of orders) is present on both
  sides with unequal values; \<open>updated_at\<close> plays no part in the classification. An
  attribute that is NULL on one side is not a difference.
\<close>

theorem changed_iff_present_attribute_differs:
  assumes "sql_eq (customer_id t) (customer_id s) = Some True"
  shows "(changed_cond (s, Some t) = Some True \<longleftrightarrow>
            differs (first_name t) (first_name s) \<or> differs (last_name t) (last_name s) \<or>
            differs (email t) (email s) \<or> differs (phone t) (phone s) \<or>
            differs (number_of_orders t) (number_of_orders s))
         \<and> changed_cond (s\<lparr>updated_at := u\<rparr>, Some (t\<lparr>updated_at := v\<rparr>))
             = changed_cond (s, Some t)"
proof
  from assms obtain k where "customer_id t = Some k" "customer_id s = Some k"
    by (cases "customer_id t"; cases "customer_id s") (simp_all add: sql_eq_def)
  then show "changed_cond (s, Some t) = Some True \<longleftrightarrow>
            differs (first_name t) (first_name s) \<or> differs (last_name t) (last_name s) \<or>
            differs (email t) (email s) \<or> differs (phone t) (phone s) \<or>
            differs (number_of_orders t) (number_of_orders s)"
    by (simp add: changed_cond_pair)
  show "changed_cond (s\<lparr>updated_at := u\<rparr>, Some (t\<lparr>updated_at := v\<rparr>)) = changed_cond (s, Some t)"
    by (simp add: changed_cond_def src_def tgt_def)
qed

text \<open>
  The stored row of customer 1 against a batch row that has three orders: the number of
  orders is present on both sides and unequal, so the pair is changed, whatever the two
  \<open>updated_at\<close> values are.
\<close>

theorem changed_iff_present_attribute_differs_witness:
  "sql_eq (customer_id alice_stored) (customer_id (withColumns alice_batch)) = Some True \<and>
   changed_cond (withColumns alice_batch, Some alice_stored) = Some True \<and>
   changed_cond ((withColumns alice_batch)\<lparr>updated_at := Some 5\<rparr>,
                 Some (alice_stored\<lparr>updated_at := None\<rparr>)) = Some True"
proof -
  have h: "sql_eq (customer_id alice_stored) (customer_id (withColumns alice_batch)) = Some True"
    by (simp add: sql_eq_def alice_stored_def alice_batch_def withColumns_def)
  have d: "differs (number_of_orders alice_stored) (number_of_orders (withColumns alice_batch))"
    by (simp add: differs_def alice_stored_def alice_batch_def withColumns_def)
  from changed_iff_present_attribute_differs [OF h, of "Some 5" None] d h
  show ?thesis by simp
qed

text \<open>
  The claim as the specification words it fails: a phone that is NULL in the batch and
  present in the stored row does not make the pair changed.
\<close>

theorem null_against_value_not_changed:
  "phone alice_stored = Some ''555-0101'' \<and> phone (withColumns alice_no_phone) = None \<and>
   sql_eq (customer_id alice_stored) (customer_id (withColumns alice_no_phone)) = Some True \<and>
   changed_cond (withColumns alice_no_phone, Some alice_stored) \<noteq> Some True"
  by (simp add: changed_cond_pair differs_def sql_eq_def
        alice_stored_def alice_no_phone_def alice_batch_def withColumns_def)

section \<open>The empty batch\<close>

text \<open>
  Claim C5. When the Delta table exists and the extracted batch is empty, the job returns
  normally; the resulting state is the initial one with the single message that there is
  nothing to write added to the trace: the table is the same, and the trace has no merge
  and no crawler call.
\<close>

theorem empty_batch_is_noop:
  assumes "dim_customers_scd w = Some tbl"
  shows "dim_customers_scd_etl_job glue d [] w =
           Inr (w\<lparr>trace := trace w
                  @ [Print ''There is no change, hence df is empty. Nothing to write!'']\<rparr>)"
  using assms by (simp add: dim_customers_scd_etl_job_def emit_def)

theorem empty_batch_is_noop_witness:
  "dim_customers_scd world0 = Some [alice_stored] \<and>
   dim_customers_scd_etl_job (Client CrawlerRunningException) 19875 [] world0 =
     Inr (world0\<lparr>trace := [Print ''There is no change, hence df is empty. Nothing to write!'']\<rparr>)"
proof -
  have h: "dim_customers_scd world0 = Some [alice_stored]" by (simp add: world0_def)
  have t: "trace world0 = []" by (simp add: world0_def)
  show ?thesis
    using h empty_batch_is_noop [OF h, of "Client CrawlerRunningException" 19875] by (simp add: t)
qed

section \<open>The join and the groups, pair by pair\<close>

lemma new_df_casted_map: "new_df_casted new_data = map casted new_data"
  by (simp add: new_df_casted_def casted_def)

lemma casted_columns:
  "customer_id (casted c) = customer_id c" "first_name (casted c) = first_name c"
  "last_name (casted c) = last_name c" "email (casted c) = email c"
  "phone (casted c) = phone c"
  "number_of_orders (casted c) = map_option to_IntegerType (number_of_orders c)"
  "updated_at (casted c) = updated_at c"
  "effective_start_date (casted c) = None" "effective_end_date (casted c) = None"
  "is_active (casted c) = None"
  by (simp_all add: casted_def cast_to_schema_def withColumns_def)

lemma customer_id_casted: "customer_id (casted c) = customer_id c"
  by (rule casted_columns)

lemma complete_casted: "complete (casted c) = complete c"
  by (simp add: complete_def casted_columns)

lemma createDataFrame_Inr: "createDataFrame new_data = Inr df \<longleftrightarrow> types_determined new_data \<and> df = new_data"
  by (auto simp: createDataFrame_def)

lemma set_left_join_row:
  "set (left_join_row ts s) =
     {(s, Some t) | t. t \<in> set ts \<and> customer_id t \<noteq> None \<and> customer_id t = customer_id s}
     \<union> (if \<exists>t \<in> set ts. customer_id t \<noteq> None \<and> customer_id t = customer_id s
        then {} else {(s, None)})"
proof (cases "join_matches s ts")
  case Nil
  then have "set (join_matches s ts) = {}" by simp
  then have "\<not> (\<exists>t \<in> set ts. customer_id t \<noteq> None \<and> customer_id t = customer_id s)"
    by (auto simp: join_matches_def set_sql_filter sql_True)
  with Nil show ?thesis by (auto simp: left_join_row_def)
next
  case (Cons m ms)
  then have "m \<in> set (join_matches s ts)" by simp
  then have ex: "\<exists>t \<in> set ts. customer_id t \<noteq> None \<and> customer_id t = customer_id s"
    by (auto simp: join_matches_def set_sql_filter sql_True)
  have "set (left_join_row ts s) = (\<lambda>t. (s, Some t)) ` set (join_matches s ts)"
    using Cons by (simp add: left_join_row_def)
  with ex show ?thesis by (auto simp: join_matches_def set_sql_filter sql_True)
qed


lemma joined_Nil: "joined [] ts = []"
  by (simp add: joined_def)

lemma joined_Cons: "joined (x # xs) ts = left_join_row ts x @ joined xs ts"
  by (simp add: joined_def)

lemma set_joined:
  "set (joined srcs ts) = (\<Union>s \<in> set srcs. set (left_join_row ts s))"
  by (simp add: joined_def)

lemma updated_old_records_append:
  "updated_old_records d (js @ ks) = updated_old_records d js @ updated_old_records d ks"
  by (simp add: updated_old_records_def sql_filter_append)

lemma updated_new_records_append:
  "updated_new_records d (js @ ks) = updated_new_records d js @ updated_new_records d ks"
  by (simp add: updated_new_records_def sql_filter_append)

lemma new_records_append:
  "new_records d (js @ ks) = new_records d js @ new_records d ks"
  by (simp add: new_records_def sql_filter_append)


lemma groups_Nil:
  "updated_old_records d [] = []" "updated_new_records d [] = []" "new_records d [] = []"
  by (simp_all add: updated_old_records_def updated_new_records_def new_records_def sql_filter_Nil)

lemma updated_old_records_concat:
  "updated_old_records d js = concat (map (\<lambda>j. fst (rows_of_pair d j)) js)"
proof (induction js)
  case Nil show ?case by (simp add: groups_Nil)
next
  case (Cons j js)
  have "updated_old_records d (j # js) = updated_old_records d [j] @ updated_old_records d js"
    using updated_old_records_append [of d "[j]" js] by simp
  with Cons show ?case by (simp add: rows_of_pair_def)
qed

lemma updated_new_records_concat:
  "updated_new_records d js = concat (map (\<lambda>j. fst (snd (rows_of_pair d j))) js)"
proof (induction js)
  case Nil show ?case by (simp add: groups_Nil)
next
  case (Cons j js)
  have "updated_new_records d (j # js) = updated_new_records d [j] @ updated_new_records d js"
    using updated_new_records_append [of d "[j]" js] by simp
  with Cons show ?case by (simp add: rows_of_pair_def)
qed

lemma new_records_concat:
  "new_records d js = concat (map (\<lambda>j. snd (snd (rows_of_pair d j))) js)"
proof (induction js)
  case Nil show ?case by (simp add: groups_Nil)
next
  case (Cons j js)
  have "new_records d (j # js) = new_records d [j] @ new_records d js"
    using new_records_append [of d "[j]" js] by simp
  with Cons show ?case by (simp add: rows_of_pair_def)
qed

lemma final_changes_concat:
  "final_changes d tbl new_data =
     (let js = joined (new_df_casted new_data) (delta_df tbl)
      in concat (map (\<lambda>j. fst (rows_of_pair d j)) js)
         @ concat (map (\<lambda>j. fst (snd (rows_of_pair d j))) js)
         @ concat (map (\<lambda>j. snd (snd (rows_of_pair d j))) js))"
  unfolding final_changes_def Let_def
  using updated_old_records_concat updated_new_records_concat new_records_concat by simp

lemma rows_of_changed_pair:
  assumes "changed_cond (s, Some t) = Some True"
  shows "rows_of_pair d (s, Some t) =
           ([closed_version_row d (s, Some t)], [new_version_row d (s, Some t)], [])"
proof -
  from assms have "customer_id t \<noteq> None" unfolding changed_cond_pair by blast
  then have "new_key_cond (s, Some t) \<noteq> Some True" by (simp add: new_key_cond_iff)
  with assms show ?thesis
    by (simp add: rows_of_pair_def updated_old_records_def updated_new_records_def
          new_records_def sql_filter_Cons sql_filter_Nil)
qed

lemma in_delta_df: "t \<in> set (delta_df tbl) \<longleftrightarrow> t \<in> set tbl \<and> is_active t = Some True"
  by (auto simp: delta_df_def set_sql_filter sql_True)

lemma delta_merge_Nil: "delta_merge tbl [] = Inr tbl"
proof -
  have "map (update_all []) tbl = tbl"
    by (induction tbl) (simp_all add: update_all_def matching_sources_def sql_filter_Nil)
  then show ?thesis
    by (simp add: delta_merge_def matching_sources_def inserted_rows_def list_ex_iff sql_filter_Nil)
qed

lemma left_join_row_no_match:
  assumes "\<forall>t \<in> set ts. customer_id t \<noteq> customer_id s \<or> customer_id s = None"
  shows "left_join_row ts s = [(s, None)]"
proof -
  have "set (join_matches s ts) = {}"
    using assms by (auto simp: join_matches_def set_sql_filter sql_True)
  then have "join_matches s ts = []" by simp
  then show ?thesis by (simp add: left_join_row_def)
qed


lemma rows_of_new_key_pair:
  assumes "customer_id s \<noteq> None"
  shows "rows_of_pair d (s, None) = ([], [], [new_version_row d (s, None)])"
  using assms
  by (simp add: rows_of_pair_def updated_old_records_def updated_new_records_def
        new_records_def sql_filter_Cons sql_filter_Nil changed_cond_None new_key_cond_iff)



section \<open>The rows of a changed pair\<close>

lemma changed_cond_casted:
  "changed_cond (casted c, Some t) = Some True \<longleftrightarrow>
     customer_id t \<noteq> None \<and> customer_id t = customer_id c \<and>
     (differs (first_name t) (first_name c) \<or> differs (last_name t) (last_name c) \<or>
      differs (email t) (email c) \<or> differs (phone t) (phone c) \<or>
      differs (number_of_orders t) (map_option to_IntegerType (number_of_orders c)))"
  unfolding changed_cond_pair casted_columns ..

text \<open>
  Claim C4, as the code has it. Let a batch record \<open>c\<close> have the natural key, not NULL, of
  an active stored row \<open>t\<close>, and let some tracked attribute be present on both sides with
  unequal values, the number of orders of \<open>c\<close> taken as cast to a 32-bit integer. Then the
  pair is a row of \<^verbatim>\<open>joined\<close>, and it puts exactly two rows in the changeset: in the
  closed-version group one row with the key, the attributes, the \<open>updated_at\<close> and the
  \<open>effective_start_date\<close> of \<open>t\<close>, the run date as \<open>effective_end_date\<close> and \<open>is_active\<close>
  false; in the new-version group one row with the columns of \<open>c\<close>, its number of orders
  as cast, the run date as \<open>effective_start_date\<close>, 9999-12-31 as \<open>effective_end_date\<close> and
  \<open>is_active\<close> true; and none in the new-key group. The changeset is the three groups one
  after the other, each the rows of the pairs in turn.
\<close>

theorem changed_pair_gives_closed_and_new_version:
  assumes "c \<in> set new_data" and "t \<in> set tbl" and "is_active t = Some True"
    and "customer_id t \<noteq> None" and "customer_id t = customer_id c"
    and "differs (first_name t) (first_name c) \<or> differs (last_name t) (last_name c) \<or>
         differs (email t) (email c) \<or> differs (phone t) (phone c) \<or>
         differs (number_of_orders t) (map_option to_IntegerType (number_of_orders c))"
  shows "(casted c, Some t) \<in> set (joined (new_df_casted new_data) (delta_df tbl)) \<and>
         rows_of_pair d (casted c, Some t) =
           ([\<lparr>customer_id = customer_id t, first_name = first_name t,
              last_name = last_name t, email = email t, phone = phone t,
              number_of_orders = number_of_orders t, updated_at = updated_at t,
              effective_start_date = effective_start_date t,
              effective_end_date = Some d, is_active = Some False\<rparr>],
            [\<lparr>customer_id = customer_id c, first_name = first_name c,
              last_name = last_name c, email = email c, phone = phone c,
              number_of_orders = map_option to_IntegerType (number_of_orders c),
              updated_at = updated_at c, effective_start_date = Some d,
              effective_end_date = Some date_9999_12_31, is_active = Some True\<rparr>],
            []) \<and>
         final_changes d tbl new_data =
           (let js = joined (new_df_casted new_data) (delta_df tbl)
            in concat (map (\<lambda>j. fst (rows_of_pair d j)) js)
               @ concat (map (\<lambda>j. fst (snd (rows_of_pair d j))) js)
               @ concat (map (\<lambda>j. snd (snd (rows_of_pair d j))) js))"
proof (intro conjI)
  have ch: "changed_cond (casted c, Some t) = Some True"
    unfolding changed_cond_casted using assms(4,5,6) by blast
  have k: "customer_id t = customer_id (casted c)"
    using assms(5) by (simp add: customer_id_casted)
  from assms(2,3) have "t \<in> set (delta_df tbl)" by (simp add: in_delta_df)
  with k assms(4) have "(casted c, Some t) \<in> set (left_join_row (delta_df tbl) (casted c))"
    by (simp add: set_left_join_row)
  moreover from assms(1) have "casted c \<in> set (new_df_casted new_data)"
    by (simp add: new_df_casted_map)
  ultimately show "(casted c, Some t) \<in> set (joined (new_df_casted new_data) (delta_df tbl))"
    by (auto simp: set_joined)
  show "rows_of_pair d (casted c, Some t) =
           ([\<lparr>customer_id = customer_id t, first_name = first_name t,
              last_name = last_name t, email = email t, phone = phone t,
              number_of_orders = number_of_orders t, updated_at = updated_at t,
              effective_start_date = effective_start_date t,
              effective_end_date = Some d, is_active = Some False\<rparr>],
            [\<lparr>customer_id = customer_id c, first_name = first_name c,
              last_name = last_name c, email = email c, phone = phone c,
              number_of_orders = map_option to_IntegerType (number_of_orders c),
              updated_at = updated_at c, effective_start_date = Some d,
              effective_end_date = Some date_9999_12_31, is_active = Some True\<rparr>],
            [])"
    using rows_of_changed_pair [OF ch, of d]
    by (simp add: closed_version_row_def new_version_row_def src_def tgt_def casted_columns)
  show "final_changes d tbl new_data =
           (let js = joined (new_df_casted new_data) (delta_df tbl)
            in concat (map (\<lambda>j. fst (rows_of_pair d j)) js)
               @ concat (map (\<lambda>j. fst (snd (rows_of_pair d j))) js)
               @ concat (map (\<lambda>j. snd (snd (rows_of_pair d j))) js))"
    by (rule final_changes_concat)
qed

lemma changed_example:
  "is_active alice_stored = Some True \<and> customer_id alice_stored = Some 1 \<and>
   customer_id alice_batch = Some 1 \<and> number_of_orders alice_stored = Some 2 \<and>
   map_option to_IntegerType (number_of_orders alice_batch) = Some 3"
  by code_simp

theorem changed_pair_gives_closed_and_new_version_witness:
  "alice_batch \<in> set [alice_batch, bob_batch] \<and> alice_stored \<in> set [alice_stored] \<and>
   is_active alice_stored = Some True \<and> customer_id alice_stored = Some 1 \<and>
   customer_id alice_batch = Some 1 \<and> number_of_orders alice_stored = Some 2 \<and>
   map_option to_IntegerType (number_of_orders alice_batch) = Some 3 \<and>
   rows_of_pair 19875 (casted alice_batch, Some alice_stored) =
     ([alice_stored\<lparr>effective_end_date := Some 19875, is_active := Some False\<rparr>],
      [\<lparr>customer_id = Some 1, first_name = Some ''Alice'', last_name = Some ''Archer'',
        email = Some ''alice@example.com'', phone = Some ''555-0101'',
        number_of_orders = Some 3, updated_at = Some 1717200000000000,
        effective_start_date = Some 19875, effective_end_date = Some 2932896,
        is_active = Some True\<rparr>],
      [])"
proof -
  note e = changed_example
  have h1: "alice_batch \<in> set [alice_batch, bob_batch]" by simp
  have h2: "alice_stored \<in> set [alice_stored]" by simp
  have h3: "is_active alice_stored = Some True" by (rule e [THEN conjunct1])
  have h4: "customer_id alice_stored \<noteq> None" using e by simp
  have h5: "customer_id alice_stored = customer_id alice_batch" using e by simp
  have h6: "differs (first_name alice_stored) (first_name alice_batch) \<or>
            differs (last_name alice_stored) (last_name alice_batch) \<or>
            differs (email alice_stored) (email alice_batch) \<or>
            differs (phone alice_stored) (phone alice_batch) \<or>
            differs (number_of_orders alice_stored)
              (map_option to_IntegerType (number_of_orders alice_batch))"
  proof -
    have n1: "number_of_orders alice_stored = Some 2"
      by (rule e [THEN conjunct2, THEN conjunct2, THEN conjunct2, THEN conjunct1])
    have n2: "map_option to_IntegerType (number_of_orders alice_batch) = Some 3"
      by (rule e [THEN conjunct2, THEN conjunct2, THEN conjunct2, THEN conjunct2])
    have "differs (number_of_orders alice_stored)
              (map_option to_IntegerType (number_of_orders alice_batch))"
      unfolding n1 n2 by (simp add: differs_def)
    then show ?thesis by blast
  qed
  note w = changed_pair_gives_closed_and_new_version [OF h1 h2 h3 h4 h5 h6, of 19875]
  have r: "rows_of_pair 19875 (casted alice_batch, Some alice_stored) =
     ([alice_stored\<lparr>effective_end_date := Some 19875, is_active := Some False\<rparr>],
      [\<lparr>customer_id = Some 1, first_name = Some ''Alice'', last_name = Some ''Archer'',
        email = Some ''alice@example.com'', phone = Some ''555-0101'',
        number_of_orders = Some 3, updated_at = Some 1717200000000000,
        effective_start_date = Some 19875, effective_end_date = Some 2932896,
        is_active = Some True\<rparr>],
      [])"
    using w [THEN conjunct2, THEN conjunct1]
    by (simp add: alice_stored_def alice_batch_def date_9999_12_31_def to_IntegerType_def)
  show ?thesis
    by (intro conjI h1 h2 e [THEN conjunct1] e [THEN conjunct2, THEN conjunct1]
          e [THEN conjunct2, THEN conjunct2, THEN conjunct1]
          e [THEN conjunct2, THEN conjunct2, THEN conjunct2, THEN conjunct1]
          e [THEN conjunct2, THEN conjunct2, THEN conjunct2, THEN conjunct2] r)
qed

text \<open>
  The claim as the specification words it fails twice. In a batch whose types can be
  inferred, a record with the key of an active row and no phone, where the row has one,
  puts no row in the changeset: only the other record of the batch does. A record with
  4294967299 orders against a row with two gives a new version with three orders, not
  with the value of the record.
\<close>

theorem changed_pair_claim_fails_for_null_and_for_wide_number:
  "types_determined [alice_no_phone, bob_batch] \<and>
   customer_id alice_no_phone = customer_id alice_stored \<and>
   phone alice_no_phone = None \<and> phone alice_stored = Some ''555-0101'' \<and>
   final_changes 19875 [alice_stored] [alice_no_phone, bob_batch]
     = [new_row_of 19875 bob_batch] \<and>
   types_determined [alice_many] \<and> number_of_orders alice_many = Some 4294967299 \<and>
   final_changes 19875 [alice_stored] [alice_many]
     = [closed_row_of 19875 alice_stored, new_row_of 19875 alice_batch] \<and>
   number_of_orders (new_row_of 19875 alice_batch) = Some 3"
  by code_simp

section \<open>What a run returns\<close>


lemma job_client_raises:
  assumes "dim_customers_scd w = Some tbl" and "new_data \<noteq> []" and "types_determined new_data"
    and "delta_merge tbl (final_changes d tbl new_data) = Inr tbl'"
  shows "\<exists>w'. dim_customers_scd_etl_job (ClientRaises e) d new_data w
                = Inl (GlueClientError e, w')
              \<and> dim_customers_scd w' = Some tbl'"
  using assms
  by (simp add: dim_customers_scd_etl_job_def createDataFrame_def run_glue_crawler_def
        emit_def Let_def)




section \<open>Records without a natural key\<close>





section \<open>The crawler trigger after a committed write\<close>





section \<open>The extract of future orders\<close>

lemma pickup_le_total: "pickup_le a b \<or> pickup_le b a"
  by (auto simp: pickup_le_def split: option.splits)

lemma pickup_le_trans: "pickup_le a b \<Longrightarrow> pickup_le b c \<Longrightarrow> pickup_le a c"
  by (auto simp: pickup_le_def split: option.splits)

lemma set_insert_by_pickup: "set (insert_by_pickup r xs) = insert r (set xs)"
  by (induction xs) auto

lemma length_insert_by_pickup: "length (insert_by_pickup r xs) = Suc (length xs)"
  by (induction xs) auto

lemma set_order_by_pickup: "set (order_by_pickup xs) = set xs"
  by (induction xs) (simp_all add: set_insert_by_pickup)

lemma length_order_by_pickup: "length (order_by_pickup xs) = length xs"
  by (induction xs) (simp_all add: length_insert_by_pickup)

lemma sorted_insert_by_pickup:
  assumes "sorted_wrt (\<lambda>a b. pickup_le (pickup_date_f a) (pickup_date_f b)) xs"
  shows "sorted_wrt (\<lambda>a b. pickup_le (pickup_date_f a) (pickup_date_f b)) (insert_by_pickup r xs)"
  using assms
proof (induction xs)
  case Nil
  show ?case by simp
next
  case (Cons x xs)
  show ?case
  proof (cases "pickup_le (pickup_date_f r) (pickup_date_f x)")
    case True
    with Cons.prems show ?thesis by (auto intro: pickup_le_trans)
  next
    case False
    then have xr: "pickup_le (pickup_date_f x) (pickup_date_f r)"
      using pickup_le_total by blast
    from Cons have "sorted_wrt (\<lambda>a b. pickup_le (pickup_date_f a) (pickup_date_f b))
        (insert_by_pickup r xs)" by simp
    with False xr Cons.prems show ?thesis by (auto simp: set_insert_by_pickup)
  qed
qed

lemma sorted_order_by_pickup:
  "sorted_wrt (\<lambda>a b. pickup_le (pickup_date_f a) (pickup_date_f b)) (order_by_pickup xs)"
  by (induction xs) (simp_all add: sorted_insert_by_pickup)

lemma set_inner_join:
  "set (inner_join cs os) =
     {(c, r). c \<in> set cs \<and> r \<in> set os \<and> customer_id c \<noteq> None \<and> customer_id c = customer_id_o r}"
  by (auto simp: inner_join_def set_sql_filter sql_True)

lemma in_customers_cte: "c \<in> set (customers_cte tbl) \<longleftrightarrow> c \<in> set tbl \<and> is_active c = Some True"
  by (auto simp: customers_cte_def set_sql_filter sql_True)

lemma sql_gt_True: "sql_gt a b = Some True \<longleftrightarrow> (\<exists>x y. a = Some x \<and> b = Some y \<and> x > y)"
  by (auto simp: sql_gt_def split: option.splits)

lemma in_orders_cte:
  "r \<in> set (orders_cte cd os) \<longleftrightarrow>
     r \<in> set os \<and> (\<exists>p. pickup_date r = Some p \<and> p > date_to_timestamp cd)"
  by (auto simp: orders_cte_def set_sql_filter sql_gt_True)

lemma set_future_orders_query:
  "set (future_orders_query cd os tbl) =
     {select_fields (c, r) | c r.
        c \<in> set tbl \<and> is_active c = Some True \<and>
        r \<in> set os \<and> (\<exists>p. pickup_date r = Some p \<and> p > date_to_timestamp cd) \<and>
        customer_id c \<noteq> None \<and> customer_id c = customer_id_o r}"
  unfolding future_orders_query_def set_order_by_pickup set_map set_inner_join
  by (auto simp: in_customers_cte in_orders_cte)

text \<open>
  Claim C8. When the dimension table can be queried and the Glue client is made, a run of
  the extract job returns normally and leaves the dimension table and the orders as they
  were. The extract after the run is the result of the query, whatever the extract held
  before: its rows are the eight projected fields of the pairs of a stored row with
  \<open>is_active\<close> true and an order whose \<open>pickup_date\<close> is later than the start of the engine's
  current date, equal on a natural key that is not NULL; there is one row for each such
  pair, and the rows are in ascending order of \<open>pickup_date\<close>. When the Glue client cannot
  be made, the run raises after the overwrite, and the state it leaves has the same
  extract.
\<close>

theorem future_orders_is_rebuilt:
  assumes "dim_customers_scd w = Some tbl"
  shows "(\<exists>w'. future_orders_etl_job (Client outcome) cd w = Inr w' \<and>
           dim_customers_scd w' = Some tbl \<and> bmd_orders w' = bmd_orders w \<and>
           future_orders w' = future_orders_query cd (bmd_orders w) tbl \<and>
           set (future_orders w') =
             {\<lparr>order_name_f = order_name r, first_name_f = first_name c,
               financial_status_f = financial_status r, draft_type_f = draft_type r,
               theme_f = theme r, flavor_f = flavor r, allergies_f = allergies r,
               pickup_date_f = pickup_date r\<rparr> | c r.
                c \<in> set tbl \<and> is_active c = Some True \<and>
                r \<in> set (bmd_orders w) \<and>
                (\<exists>p. pickup_date r = Some p \<and> p > date_to_timestamp cd) \<and>
                customer_id c \<noteq> None \<and> customer_id c = customer_id_o r} \<and>
           length (future_orders w') =
             length (inner_join (customers_cte tbl) (orders_cte cd (bmd_orders w))) \<and>
           sorted_wrt (\<lambda>a b. pickup_le (pickup_date_f a) (pickup_date_f b)) (future_orders w')) \<and>
         (\<exists>w'. future_orders_etl_job (ClientRaises e) cd w = Inl (GlueClientError e, w') \<and>
           dim_customers_scd w' = Some tbl \<and> bmd_orders w' = bmd_orders w \<and>
           future_orders w' = future_orders_query cd (bmd_orders w) tbl)"
proof -
  let ?res = "future_orders_query cd (bmd_orders w) tbl"
  let ?w1 = "emit [OverwriteSaved ?res] (w\<lparr>future_orders := ?res\<rparr>)"
  let ?w' = "emit (start_crawler outcome ''weeklyStreamlineOrdersCrawler'') ?w1"
  have run: "future_orders_etl_job (Client outcome) cd w = Inr ?w'"
    using assms by (simp add: future_orders_etl_job_def run_glue_crawler_def Let_def)
  have raises: "future_orders_etl_job (ClientRaises e) cd w = Inl (GlueClientError e, ?w1)"
    using assms by (simp add: future_orders_etl_job_def run_glue_crawler_def Let_def)
  have f: "future_orders ?w' = ?res" and d: "dim_customers_scd ?w' = Some tbl"
    and b: "bmd_orders ?w' = bmd_orders w"
    using assms by (simp_all add: emit_def)
  have f1: "future_orders ?w1 = ?res" and d1: "dim_customers_scd ?w1 = Some tbl"
    and b1: "bmd_orders ?w1 = bmd_orders w"
    using assms by (simp_all add: emit_def)
  have s: "set ?res =
             {\<lparr>order_name_f = order_name r, first_name_f = first_name c,
               financial_status_f = financial_status r, draft_type_f = draft_type r,
               theme_f = theme r, flavor_f = flavor r, allergies_f = allergies r,
               pickup_date_f = pickup_date r\<rparr> | c r.
                c \<in> set tbl \<and> is_active c = Some True \<and>
                r \<in> set (bmd_orders w) \<and>
                (\<exists>p. pickup_date r = Some p \<and> p > date_to_timestamp cd) \<and>
                customer_id c \<noteq> None \<and> customer_id c = customer_id_o r}"
    unfolding set_future_orders_query by (simp add: select_fields_def)
  have l: "length ?res = length (inner_join (customers_cte tbl) (orders_cte cd (bmd_orders w)))"
    by (simp add: future_orders_query_def length_order_by_pickup)
  have o: "sorted_wrt (\<lambda>a b. pickup_le (pickup_date_f a) (pickup_date_f b)) ?res"
    by (simp add: future_orders_query_def sorted_order_by_pickup)
  have first: "\<exists>w'. future_orders_etl_job (Client outcome) cd w = Inr w' \<and>
           dim_customers_scd w' = Some tbl \<and> bmd_orders w' = bmd_orders w \<and>
           future_orders w' = future_orders_query cd (bmd_orders w) tbl \<and>
           set (future_orders w') =
             {\<lparr>order_name_f = order_name r, first_name_f = first_name c,
               financial_status_f = financial_status r, draft_type_f = draft_type r,
               theme_f = theme r, flavor_f = flavor r, allergies_f = allergies r,
               pickup_date_f = pickup_date r\<rparr> | c r.
                c \<in> set tbl \<and> is_active c = Some True \<and>
                r \<in> set (bmd_orders w) \<and>
                (\<exists>p. pickup_date r = Some p \<and> p > date_to_timestamp cd) \<and>
                customer_id c \<noteq> None \<and> customer_id c = customer_id_o r} \<and>
           length (future_orders w') =
             length (inner_join (customers_cte tbl) (orders_cte cd (bmd_orders w))) \<and>
           sorted_wrt (\<lambda>a b. pickup_le (pickup_date_f a) (pickup_date_f b)) (future_orders w')"
    unfolding run using f d b s l o by (intro exI [of _ ?w']) simp
  have second: "\<exists>w'. future_orders_etl_job (ClientRaises e) cd w = Inl (GlueClientError e, w') \<and>
           dim_customers_scd w' = Some tbl \<and> bmd_orders w' = bmd_orders w \<and>
           future_orders w' = future_orders_query cd (bmd_orders w) tbl"
    unfolding raises using f1 d1 b1 by (intro exI [of _ ?w1]) simp
  from first second show ?thesis by (rule conjI)
qed

lemma orders_cte_example:
  "orders_cte 19875 (bmd_orders world_orders) =
     [order_of ''#1003'' 1719792000000000, order_of ''#1002'' 1718013600000000]"
  by (simp add: orders_cte_def world_orders_def order_of_def sql_filter_def sql_gt_def
        date_to_timestamp_def)

lemma query_example:
  "future_orders_query 19875 (bmd_orders world_orders) [alice_stored] =
     [extract_of ''#1002'' 1718013600000000, extract_of ''#1003'' 1719792000000000]"
  unfolding future_orders_query_def orders_cte_example
  by (simp add: customers_cte_def inner_join_def sql_filter_def sql_eq_def alice_stored_def
        order_of_def extract_of_def select_fields_def pickup_le_def)

theorem future_orders_is_rebuilt_witness:
  "dim_customers_scd world_orders = Some [alice_stored] \<and>
   future_orders world_orders = [extract_of ''#0999'' 1709251200000000] \<and>
   (\<exists>w'. future_orders_etl_job (Client CrawlerRunningException) 19875 world_orders = Inr w' \<and>
         future_orders w' =
           [extract_of ''#1002'' 1718013600000000, extract_of ''#1003'' 1719792000000000])"
proof -
  have h: "dim_customers_scd world_orders = Some [alice_stored]"
    by (simp add: world_orders_def)
  have p: "future_orders world_orders = [extract_of ''#0999'' 1709251200000000]"
    by (simp add: world_orders_def)
  from future_orders_is_rebuilt [OF h, of CrawlerRunningException 19875, THEN conjunct1]
  obtain w' where w: "future_orders_etl_job (Client CrawlerRunningException) 19875 world_orders = Inr w' \<and>
           dim_customers_scd w' = Some [alice_stored] \<and> bmd_orders w' = bmd_orders world_orders \<and>
           future_orders w' = future_orders_query 19875 (bmd_orders world_orders) [alice_stored] \<and>
           set (future_orders w') =
             {\<lparr>order_name_f = order_name r, first_name_f = first_name c,
               financial_status_f = financial_status r, draft_type_f = draft_type r,
               theme_f = theme r, flavor_f = flavor r, allergies_f = allergies r,
               pickup_date_f = pickup_date r\<rparr> | c r.
                c \<in> set [alice_stored] \<and> is_active c = Some True \<and>
                r \<in> set (bmd_orders world_orders) \<and>
                (\<exists>p. pickup_date r = Some p \<and> p > date_to_timestamp 19875) \<and>
                customer_id c \<noteq> None \<and> customer_id c = customer_id_o r} \<and>
           length (future_orders w') =
             length (inner_join (customers_cte [alice_stored]) (orders_cte 19875 (bmd_orders world_orders))) \<and>
           sorted_wrt (\<lambda>a b. pickup_le (pickup_date_f a) (pickup_date_f b)) (future_orders w')"
    by (rule exE)
  from w have a: "future_orders_etl_job (Client CrawlerRunningException) 19875 world_orders = Inr w'"
    by (rule conjunct1)
  from w have b: "future_orders w' = future_orders_query 19875 (bmd_orders world_orders) [alice_stored]"
    by (elim conjE)
  have c: "future_orders w' =
           [extract_of ''#1002'' 1718013600000000, extract_of ''#1003'' 1719792000000000]"
    unfolding b by (rule query_example)
  from a c have "\<exists>w'. future_orders_etl_job (Client CrawlerRunningException) 19875 world_orders = Inr w' \<and>
         future_orders w' =
           [extract_of ''#1002'' 1718013600000000, extract_of ''#1003'' 1719792000000000]"
    by (intro exI [of _ w'] conjI)
  with h p show ?thesis by (intro conjI)
qed

section \<open>The merge on rows that have their key and tracked attributes\<close>

lemma merge_cond_iff: "merge_cond t s = Some True \<longleftrightarrow> complete t \<and> tracked t = tracked s"
  unfolding merge_cond_def sql_and_True sql_eq_True complete_def tracked_def
  by (cases "customer_id t"; cases "email t"; cases "first_name t"; cases "last_name t";
      cases "phone t"; cases "number_of_orders t") auto

lemma matched_rows_eq:
  "matched_rows tbl s = filter (\<lambda>t. complete t \<and> tracked t = tracked s) tbl"
  by (simp add: matched_rows_def sql_filter_def merge_cond_iff)

lemma matching_sources_eq:
  "matching_sources changes t = filter (\<lambda>s. complete t \<and> tracked t = tracked s) changes"
  by (simp add: matching_sources_def sql_filter_def merge_cond_iff)

lemma filter_eq_distinct_map:
  assumes "distinct (map f xs)"
  shows "length (filter (\<lambda>x. f x = v) xs) \<le> 1"
  using assms
proof (induction xs)
  case Nil show ?case by simp
next
  case (Cons x xs)
  show ?case
  proof (cases "f x = v")
    case True
    with Cons.prems have "\<forall>y \<in> set xs. f y \<noteq> v" by (auto simp: image_iff)
    then have "filter (\<lambda>x. f x = v) xs = []" by (simp add: filter_empty_conv)
    with True show ?thesis by simp
  next
    case False
    with Cons show ?thesis by simp
  qed
qed

lemma matching_sources_le1:
  assumes "distinct (map tracked changes)"
  shows "length (matching_sources changes t) \<le> 1"
proof (cases "complete t")
  case True
  then have "matching_sources changes t = filter (\<lambda>s. tracked s = tracked t) changes"
    by (auto simp: matching_sources_eq intro: filter_cong)
  with filter_eq_distinct_map [OF assms, of "tracked t"] show ?thesis by simp
next
  case False
  then show ?thesis by (simp add: matching_sources_eq)
qed

lemma delta_merge_succeeds:
  assumes "distinct (map tracked changes)"
  shows "delta_merge tbl changes = Inr (map (update_all changes) tbl @ inserted_rows tbl changes)"
proof -
  have "\<not> list_ex (\<lambda>t. length (matching_sources changes t) > 1) tbl"
    using matching_sources_le1 [OF assms] by (auto simp: list_ex_iff not_less)
  then show ?thesis by (simp add: delta_merge_def)
qed

lemma update_all_cases:
  "(matching_sources changes t = [] \<and> update_all changes t = t) \<or>
   (update_all changes t \<in> set changes \<and> complete t \<and>
    tracked (update_all changes t) = tracked t)"
proof (cases "matching_sources changes t")
  case Nil
  then show ?thesis by (simp add: update_all_def)
next
  case (Cons s ss)
  then have "s \<in> set (matching_sources changes t)" by simp
  then have "s \<in> set changes \<and> complete t \<and> tracked t = tracked s"
    by (simp add: matching_sources_eq)
  moreover from Cons have "update_all changes t = s" by (simp add: update_all_def)
  ultimately show ?thesis by simp
qed

lemma tracked_update_all: "tracked (update_all changes t) = tracked t"
  using update_all_cases [of changes t] by auto

lemma update_all_unmatched:
  assumes "tracked t \<notin> tracked ` set changes"
  shows "update_all changes t = t"
proof -
  have "set (matching_sources changes t) = {}"
    using assms by (auto simp: matching_sources_eq)
  then show ?thesis by (simp add: update_all_def)
qed

lemma update_all_matched:
  assumes "distinct (map tracked changes)" and "s \<in> set changes" and "complete t"
    and "tracked t = tracked s"
  shows "update_all changes t = s"
proof -
  from update_all_cases [of changes t]
  show ?thesis
  proof
    assume "matching_sources changes t = [] \<and> update_all changes t = t"
    then have "set (matching_sources changes t) = {}" by simp
    with assms(2,3,4) show ?thesis by (auto simp: matching_sources_eq)
  next
    assume a: "update_all changes t \<in> set changes \<and> complete t \<and>
      tracked (update_all changes t) = tracked t"
    from assms(1) have "inj_on tracked (set changes)" by (simp add: distinct_map)
    with a assms(2,4) show ?thesis by (auto dest: inj_onD)
  qed
qed

lemma set_inserted_rows:
  assumes "list_all complete tbl"
  shows "set (inserted_rows tbl changes) = {s \<in> set changes. tracked s \<notin> tracked ` set tbl}"
proof -
  have "\<And>s. matched_rows tbl s = [] \<longleftrightarrow> tracked s \<notin> tracked ` set tbl"
    using assms by (auto simp: matched_rows_eq filter_empty_conv list_all_iff image_iff)
  then show ?thesis by (auto simp: inserted_rows_def)
qed

lemma set_merged:
  assumes "list_all complete tbl" and "distinct (map tracked changes)"
  shows "set (map (update_all changes) tbl @ inserted_rows tbl changes) =
           {t \<in> set tbl. tracked t \<notin> tracked ` set changes} \<union> set changes"
proof (intro equalityI subsetI)
  fix x assume "x \<in> set (map (update_all changes) tbl @ inserted_rows tbl changes)"
  then consider t where "t \<in> set tbl" "x = update_all changes t"
    | "x \<in> set (inserted_rows tbl changes)" by auto
  then show "x \<in> {t \<in> set tbl. tracked t \<notin> tracked ` set changes} \<union> set changes"
  proof cases
    case 1
    show ?thesis
    proof (cases "tracked t \<in> tracked ` set changes")
      case True
      then obtain s where s: "s \<in> set changes" "tracked t = tracked s" by auto
      from 1 assms(1) have "complete t" by (simp add: list_all_iff)
      with update_all_matched [OF assms(2) s(1) _ s(2)] 1 s show ?thesis by simp
    next
      case False
      with update_all_unmatched 1 show ?thesis by simp
    qed
  next
    case 2
    then show ?thesis by (simp add: set_inserted_rows [OF assms(1)])
  qed
next
  fix x assume x: "x \<in> {t \<in> set tbl. tracked t \<notin> tracked ` set changes} \<union> set changes"
  show "x \<in> set (map (update_all changes) tbl @ inserted_rows tbl changes)"
  proof (cases "x \<in> set changes")
    case True
    show ?thesis
    proof (cases "tracked x \<in> tracked ` set tbl")
      case True
      then obtain t where t: "t \<in> set tbl" "tracked t = tracked x" by force
      from t assms(1) have "complete t" by (simp add: list_all_iff)
      from update_all_matched [OF assms(2) \<open>x \<in> set changes\<close> this t(2)] t(1)
      show ?thesis by force
    next
      case False
      with \<open>x \<in> set changes\<close> show ?thesis by (simp add: set_inserted_rows [OF assms(1)])
    qed
  next
    case False
    with x have "x \<in> set tbl" "tracked x \<notin> tracked ` set changes" by auto
    with update_all_unmatched [of x changes] show ?thesis by force
  qed
qed

lemma distinct_merged:
  assumes "list_all complete tbl" and "distinct (map tracked changes)"
    and "distinct (map tracked tbl)"
  shows "distinct (map tracked (map (update_all changes) tbl @ inserted_rows tbl changes))"
proof -
  have a: "map tracked (map (update_all changes) tbl) = map tracked tbl"
    by (induction tbl) (simp_all add: tracked_update_all)
  have b: "distinct (map tracked (inserted_rows tbl changes))"
    using assms(2) by (simp add: inserted_rows_def distinct_map_filter)
  have c: "tracked ` set tbl \<inter> tracked ` set (inserted_rows tbl changes) = {}"
    by (auto simp: set_inserted_rows [OF assms(1)])
  have "distinct (map tracked tbl @ map tracked (inserted_rows tbl changes))"
    using assms(3) b c by simp
  then show ?thesis unfolding map_append a .
qed

section \<open>The rows of the groups as sets\<close>

lemma new_version_row_of_batch:
  "new_version_row d (s, topt) = new_row_of d s"
  by (simp add: new_version_row_def new_row_of_def src_def)

lemma closed_version_row_of_stored:
  "closed_version_row d (s, Some t) = closed_row_of d t"
  by (simp add: closed_version_row_def closed_row_of_def tgt_def)

lemma tracked_new_row_of: "tracked (new_row_of d c) = tracked c"
  by (simp add: tracked_def new_row_of_def)

lemma tracked_closed_row_of: "tracked (closed_row_of d t) = tracked t"
  by (simp add: tracked_def closed_row_of_def)

lemma new_row_of_casted:
  "new_row_of d (casted c) =
     \<lparr>customer_id = customer_id c, first_name = first_name c,
      last_name = last_name c, email = email c, phone = phone c,
      number_of_orders = map_option to_IntegerType (number_of_orders c),
      updated_at = updated_at c, effective_start_date = Some d,
      effective_end_date = Some date_9999_12_31, is_active = Some True\<rparr>"
  by (simp add: new_row_of_def casted_columns)

lemma set_new_records:
  "set (new_records d js) = new_version_row d ` {j \<in> set js. new_key_cond j = Some True}"
  by (simp add: new_records_def set_sql_filter)

lemma set_updated_old_records:
  "set (updated_old_records d js) = closed_version_row d ` {j \<in> set js. changed_cond j = Some True}"
  by (simp add: updated_old_records_def set_sql_filter)

lemma set_updated_new_records:
  "set (updated_new_records d js) = new_version_row d ` {j \<in> set js. changed_cond j = Some True}"
  by (simp add: updated_new_records_def set_sql_filter)

lemma set_final_changes:
  "set (final_changes d tbl new_data) =
     (let js = set (joined (new_df_casted new_data) (delta_df tbl))
      in closed_version_row d ` {j \<in> js. changed_cond j = Some True}
         \<union> new_version_row d ` {j \<in> js. changed_cond j = Some True}
         \<union> new_version_row d ` {j \<in> js. new_key_cond j = Some True})"
  by (simp add: final_changes_def Let_def set_new_records set_updated_old_records
        set_updated_new_records Un_assoc)

lemma delta_merge_Inr:
  assumes "delta_merge tbl changes = Inr tbl'"
  shows "tbl' = map (update_all changes) tbl @ inserted_rows tbl changes"
  using assms by (simp add: delta_merge_def split: if_splits)

section \<open>A record with a new key\<close>

text \<open>
  Claim C7, as the code has it. Let a batch record have a natural key that is not NULL
  and that no active stored row has. Then it is joined with no target row, and the pair
  puts exactly one row in the changeset, in the new-key group: the columns of the record,
  its number of orders as cast to a 32-bit integer, \<open>is_active\<close> true, the run date as
  \<open>effective_start_date\<close> and 9999-12-31 as \<open>effective_end_date\<close>. When moreover no stored
  row, active or not, has the key and the tracked attributes of that row, a merge that
  succeeds appends it after the stored rows.
\<close>

theorem new_key_record_gives_one_inserted_row:
  assumes "c \<in> set new_data" and "customer_id c \<noteq> None"
    and "\<forall>t \<in> set tbl. is_active t = Some True \<longrightarrow> customer_id t \<noteq> customer_id c"
  shows "left_join_row (delta_df tbl) (casted c) = [(casted c, None)] \<and>
         rows_of_pair d (casted c, None) =
           ([], [],
            [\<lparr>customer_id = customer_id c, first_name = first_name c,
              last_name = last_name c, email = email c, phone = phone c,
              number_of_orders = map_option to_IntegerType (number_of_orders c),
              updated_at = updated_at c, effective_start_date = Some d,
              effective_end_date = Some date_9999_12_31, is_active = Some True\<rparr>]) \<and>
         new_row_of d (casted c) \<in> set (final_changes d tbl new_data) \<and>
         ((\<forall>t \<in> set tbl. tracked t \<noteq> tracked (casted c)) \<longrightarrow>
          delta_merge tbl (final_changes d tbl new_data) = Inr tbl' \<longrightarrow>
          new_row_of d (casted c) \<in> set (drop (length tbl) tbl'))"
proof (intro conjI impI)
  let ?s = "casted c"
  have k: "customer_id ?s \<noteq> None" using assms(2) by (simp add: customer_id_casted)
  have "\<forall>t \<in> set (delta_df tbl). customer_id t \<noteq> customer_id ?s \<or> customer_id ?s = None"
    using assms(3) by (simp add: in_delta_df customer_id_casted)
  then show j: "left_join_row (delta_df tbl) ?s = [(?s, None)]"
    by (rule left_join_row_no_match)
  show "rows_of_pair d (?s, None) =
           ([], [],
            [\<lparr>customer_id = customer_id c, first_name = first_name c,
              last_name = last_name c, email = email c, phone = phone c,
              number_of_orders = map_option to_IntegerType (number_of_orders c),
              updated_at = updated_at c, effective_start_date = Some d,
              effective_end_date = Some date_9999_12_31, is_active = Some True\<rparr>])"
    using rows_of_new_key_pair [OF k, of d]
    by (simp add: new_version_row_of_batch new_row_of_casted)
  have "?s \<in> set (new_df_casted new_data)" using assms(1) by (simp add: new_df_casted_map)
  with j have "(?s, None) \<in> set (joined (new_df_casted new_data) (delta_df tbl))"
    by (force simp: set_joined)
  moreover have "new_key_cond (?s, None) = Some True" using k by (simp add: new_key_cond_iff)
  ultimately have "new_version_row d (?s, None) \<in> set (final_changes d tbl new_data)"
    unfolding set_final_changes Let_def by blast
  then show n: "new_row_of d ?s \<in> set (final_changes d tbl new_data)"
    by (simp add: new_version_row_of_batch)
  assume a: "\<forall>t \<in> set tbl. tracked t \<noteq> tracked ?s"
    and m: "delta_merge tbl (final_changes d tbl new_data) = Inr tbl'"
  have "matched_rows tbl (new_row_of d ?s) = []"
    using a by (simp add: matched_rows_eq filter_empty_conv tracked_new_row_of)
  with n have "new_row_of d ?s \<in> set (inserted_rows tbl (final_changes d tbl new_data))"
    by (simp add: inserted_rows_def)
  then show "new_row_of d ?s \<in> set (drop (length tbl) tbl')"
    unfolding delta_merge_Inr [OF m] by simp
qed

lemma bob_merge_example:
  "delta_merge [alice_stored] (final_changes 19875 [alice_stored] [bob_batch])
     = Inr [alice_stored, new_row_of 19875 (casted bob_batch)]"
  by code_simp

lemma bob_example:
  "customer_id bob_batch = Some 2 \<and> customer_id alice_stored = Some 1 \<and>
   tracked alice_stored \<noteq> tracked (casted bob_batch)"
  by code_simp

theorem new_key_record_gives_one_inserted_row_witness:
  "bob_batch \<in> set [bob_batch] \<and> customer_id bob_batch = Some 2 \<and>
   customer_id alice_stored = Some 1 \<and>
   delta_merge [alice_stored] (final_changes 19875 [alice_stored] [bob_batch])
     = Inr [alice_stored, new_row_of 19875 (casted bob_batch)] \<and>
   rows_of_pair 19875 (casted bob_batch, None) =
     ([], [],
      [\<lparr>customer_id = Some 2, first_name = Some ''Bob'', last_name = Some ''Baker'',
        email = Some ''bob@example.com'', phone = Some ''555-0102'',
        number_of_orders = Some 1, updated_at = Some 1717200000000000,
        effective_start_date = Some 19875, effective_end_date = Some 2932896,
        is_active = Some True\<rparr>]) \<and>
   new_row_of 19875 (casted bob_batch)
     \<in> set (drop (length [alice_stored]) [alice_stored, new_row_of 19875 (casted bob_batch)])"
proof -
  note e = bob_example
  have k: "customer_id bob_batch = Some 2" "customer_id alice_stored = Some 1"
    by (rule e [THEN conjunct1], rule e [THEN conjunct2, THEN conjunct1])
  have h1: "bob_batch \<in> set [bob_batch]" by simp
  have h2: "customer_id bob_batch \<noteq> None" by (simp add: k)
  have h3: "\<forall>t \<in> set [alice_stored].
              is_active t = Some True \<longrightarrow> customer_id t \<noteq> customer_id bob_batch"
    by (simp add: k)
  have t: "tracked alice_stored \<noteq> tracked (casted bob_batch)"
    by (rule e [THEN conjunct2, THEN conjunct2])
  then have h4: "\<forall>t \<in> set [alice_stored]. tracked t \<noteq> tracked (casted bob_batch)"
    by simp
  note h5 = bob_merge_example
  note w = new_key_record_gives_one_inserted_row [OF h1 h2 h3, of 19875]
  have r: "rows_of_pair 19875 (casted bob_batch, None) =
     ([], [],
      [\<lparr>customer_id = Some 2, first_name = Some ''Bob'', last_name = Some ''Baker'',
        email = Some ''bob@example.com'', phone = Some ''555-0102'',
        number_of_orders = Some 1, updated_at = Some 1717200000000000,
        effective_start_date = Some 19875, effective_end_date = Some 2932896,
        is_active = Some True\<rparr>])"
    using w [THEN conjunct2, THEN conjunct1]
    by (simp add: bob_batch_def date_9999_12_31_def to_IntegerType_def)
  have i: "new_row_of 19875 (casted bob_batch)
     \<in> set (drop (length [alice_stored]) [alice_stored, new_row_of 19875 (casted bob_batch)])"
    by (rule w [THEN conjunct2, THEN conjunct2, THEN conjunct2, THEN mp, OF h4, THEN mp, OF h5])
  show ?thesis by (intro conjI h1 k h5 r i)
qed

text \<open>
  The claim as the specification words it fails three times, on batches whose types can
  be inferred. A record with a NULL key matches no active row and yet puts no row in the
  changeset: only the other record of the batch does. A record whose key has a closed
  version only, with the values of the record, puts one row in the changeset, and the
  merge writes it over the closed version: the table still has one row. A record with
  4294967299 orders is written with three.
\<close>

theorem new_key_claim_fails_for_null_key_and_closed_version:
  "types_determined [anonymous_batch, bob_batch] \<and> customer_id anonymous_batch = None \<and>
   final_changes 19875 [alice_stored] [anonymous_batch, bob_batch]
     = [new_row_of 19875 (casted bob_batch)] \<and>
   types_determined [alice_same] \<and> is_active alice_closed \<noteq> Some True \<and>
   final_changes 19875 [alice_closed] [alice_same] = [new_row_of 19875 (casted alice_same)] \<and>
   delta_merge [alice_closed] (final_changes 19875 [alice_closed] [alice_same])
     = Inr [new_row_of 19875 (casted alice_same)] \<and>
   types_determined [alice_many] \<and> number_of_orders alice_many = Some 4294967299 \<and>
   final_changes 19875 [] [alice_many] = [new_row_of 19875 (casted alice_many)] \<and>
   number_of_orders (new_row_of 19875 (casted alice_many)) = Some 3"
  by code_simp

section \<open>Where the merge sends the rows of the changeset\<close>


lemma changed_pair_in_final_changes:
  assumes "c \<in> set new_data" and "t \<in> set tbl" and "is_active t = Some True"
    and "changed_cond (casted c, Some t) = Some True"
  shows "closed_row_of d t \<in> set (final_changes d tbl new_data)"
    and "new_row_of d (casted c) \<in> set (final_changes d tbl new_data)"
proof -
  let ?j = "(casted c, Some t)"
  from assms(4) have k: "customer_id t \<noteq> None" "customer_id t = customer_id (casted c)"
    unfolding changed_cond_pair by blast+
  from assms(2,3) have "t \<in> set (delta_df tbl)" by (simp add: in_delta_df)
  with k have "?j \<in> set (left_join_row (delta_df tbl) (casted c))"
    by (simp add: set_left_join_row)
  moreover from assms(1) have "casted c \<in> set (new_df_casted new_data)"
    by (simp add: new_df_casted_map)
  ultimately have j: "?j \<in> set (joined (new_df_casted new_data) (delta_df tbl))"
    by (auto simp: set_joined)
  from j assms(4) have "closed_version_row d ?j \<in> set (final_changes d tbl new_data)"
    unfolding set_final_changes Let_def by blast
  then show "closed_row_of d t \<in> set (final_changes d tbl new_data)"
    by (simp add: closed_version_row_of_stored)
  from j assms(4) have "new_version_row d ?j \<in> set (final_changes d tbl new_data)"
    unfolding set_final_changes Let_def by blast
  then show "new_row_of d (casted c) \<in> set (final_changes d tbl new_data)"
    by (simp add: new_version_row_of_batch)
qed







section \<open>The changeset of a batch on a table that satisfies the invariant\<close>

lemma job_table:
  assumes "dim_customers_scd w = Some tbl" and "reconcile d new_data tbl = Inr tbl'"
    and "new_data = [] \<or> types_determined new_data"
  shows "\<exists>w'. dim_customers_scd_etl_job (Client outcome) d new_data w = Inr w'
              \<and> dim_customers_scd w' = Some tbl'"
  using assms
  by (auto simp: dim_customers_scd_etl_job_def reconcile_def emit_def Let_def
        createDataFrame_def run_glue_crawler_def split: if_splits)

lemma filter_length1_unique:
  assumes "length (filter P xs) = 1" and "a \<in> set xs" and "P a" and "b \<in> set xs" and "P b"
  shows "a = b"
proof -
  from assms(1) obtain x where x: "filter P xs = [x]"
    by (cases "filter P xs") auto
  from assms(2,3) have "a \<in> set (filter P xs)" by simp
  moreover from assms(4,5) have "b \<in> set (filter P xs)" by simp
  ultimately show ?thesis unfolding x by simp
qed

lemma single_active_unique:
  assumes "single_active tbl" and "a \<in> set tbl" and "is_active a = Some True"
    and "b \<in> set tbl" and "is_active b = Some True" and "customer_id a = customer_id b"
  shows "a = b"
proof -
  from assms(1,2) have "length (active_rows_of (customer_id a) tbl) = 1"
    by (simp add: single_active_def list_all_iff)
  then show ?thesis
    unfolding active_rows_of_def
    by (rule filter_length1_unique) (use assms in simp_all)
qed

lemma single_active_exists:
  assumes "single_active tbl" and "r \<in> set tbl"
  shows "\<exists>t \<in> set tbl. is_active t = Some True \<and> customer_id t = customer_id r"
proof -
  from assms have "length (active_rows_of (customer_id r) tbl) = 1"
    by (simp add: single_active_def list_all_iff)
  then obtain x where "active_rows_of (customer_id r) tbl = [x]"
    by (cases "active_rows_of (customer_id r) tbl") auto
  then have "x \<in> set (active_rows_of (customer_id r) tbl)" by simp
  then show ?thesis by (auto simp: active_rows_of_def)
qed

lemma single_activeI:
  assumes "distinct tbl"
    and "\<And>r. r \<in> set tbl \<Longrightarrow>
           \<exists>a. {x \<in> set tbl. customer_id x = customer_id r \<and> is_active x = Some True} = {a}"
  shows "single_active tbl"
proof -
  have "length (active_rows_of (customer_id r) tbl) = 1" if "r \<in> set tbl" for r
  proof -
    from assms(2) [OF that] obtain a where
      a: "{x \<in> set tbl. customer_id x = customer_id r \<and> is_active x = Some True} = {a}" ..
    have "length (active_rows_of (customer_id r) tbl)
            = card {x \<in> set tbl. customer_id x = customer_id r \<and> is_active x = Some True}"
      unfolding active_rows_of_def distinct_length_filter [OF assms(1)]
      by (rule arg_cong [where f = card]) auto
    then show ?thesis unfolding a by simp
  qed
  then show ?thesis by (simp add: single_active_def list_all_iff)
qed

lemma changed_cond_complete:
  assumes "complete s" and "complete t"
  shows "changed_cond (s, Some t) = Some True \<longleftrightarrow>
           customer_id t = customer_id s \<and> tracked t \<noteq> tracked s"
  using assms unfolding changed_cond_pair complete_def tracked_def differs_def by auto

lemma complete_new_row_of: "complete (new_row_of d c) = complete c"
  by (simp add: complete_def new_row_of_def)

lemma complete_closed_row_of: "complete (closed_row_of d t) = complete t"
  by (simp add: complete_def closed_row_of_def)

lemma fst_tracked: "fst (tracked r) = customer_id r"
  by (simp add: tracked_def)

lemma customer_id_new_row_of: "customer_id (new_row_of d c) = customer_id c"
  by (simp add: new_row_of_def)

lemma customer_id_closed_row_of: "customer_id (closed_row_of d t) = customer_id t"
  by (simp add: closed_row_of_def)

lemma is_active_new_row_of: "is_active (new_row_of d c) = Some True"
  by (simp add: new_row_of_def)

lemma is_active_closed_row_of: "is_active (closed_row_of d t) = Some False"
  by (simp add: closed_row_of_def)

lemma in_left_join_row_delta:
  "j \<in> set (left_join_row (delta_df tbl) (casted c)) \<longleftrightarrow>
        (\<exists>t \<in> set tbl. is_active t = Some True \<and> customer_id t \<noteq> None \<and>
            customer_id t = customer_id c \<and> j = (casted c, Some t))
        \<or> (\<not> (\<exists>t \<in> set tbl. is_active t = Some True \<and> customer_id t \<noteq> None \<and>
                customer_id t = customer_id c) \<and> j = (casted c, None))"
proof -
  have e: "(\<exists>t \<in> set (delta_df tbl). customer_id t \<noteq> None \<and>
              customer_id t = customer_id (casted c)) \<longleftrightarrow>
           (\<exists>t \<in> set tbl. is_active t = Some True \<and> customer_id t \<noteq> None \<and>
              customer_id t = customer_id c)"
    unfolding customer_id_casted by (metis in_delta_df)
  show ?thesis
  proof (cases "\<exists>t \<in> set tbl. is_active t = Some True \<and> customer_id t \<noteq> None \<and>
              customer_id t = customer_id c")
    case True
    with e have ex: "\<exists>t \<in> set (delta_df tbl). customer_id t \<noteq> None \<and>
              customer_id t = customer_id (casted c)" by blast
    have "set (left_join_row (delta_df tbl) (casted c)) =
        {(casted c, Some t) | t. t \<in> set (delta_df tbl) \<and> customer_id t \<noteq> None \<and>
            customer_id t = customer_id (casted c)}"
      unfolding set_left_join_row using ex by (simp only: if_True Un_empty_right)
    then have "j \<in> set (left_join_row (delta_df tbl) (casted c)) \<longleftrightarrow>
        (\<exists>t. t \<in> set tbl \<and> is_active t = Some True \<and> customer_id t \<noteq> None \<and>
            customer_id t = customer_id c \<and> j = (casted c, Some t))"
      unfolding customer_id_casted in_delta_df by blast
    with True show ?thesis by blast
  next
    case False
    with e have nex: "\<not> (\<exists>t \<in> set (delta_df tbl). customer_id t \<noteq> None \<and>
              customer_id t = customer_id (casted c))" by blast
    have "set (left_join_row (delta_df tbl) (casted c)) =
        {(casted c, Some t) | t. t \<in> set (delta_df tbl) \<and> customer_id t \<noteq> None \<and>
            customer_id t = customer_id (casted c)} \<union> {(casted c, None)}"
      unfolding set_left_join_row using nex by (simp only: if_False)
    moreover from nex have "{(casted c, Some t) | t. t \<in> set (delta_df tbl) \<and>
        customer_id t \<noteq> None \<and> customer_id t = customer_id (casted c)} = {}"
      by blast
    ultimately have "set (left_join_row (delta_df tbl) (casted c)) = {(casted c, None)}"
      by (simp only: Un_empty_left)
    then have "j \<in> set (left_join_row (delta_df tbl) (casted c)) \<longleftrightarrow>
        j = (casted c, None)" by (simp only: singleton_iff)
    with False show ?thesis by blast
  qed
qed

lemma in_joined:
  "j \<in> set (joined (new_df_casted new_data) (delta_df tbl)) \<longleftrightarrow>
     (\<exists>c \<in> set new_data.
        (\<exists>t \<in> set tbl. is_active t = Some True \<and> customer_id t \<noteq> None \<and>
            customer_id t = customer_id c \<and> j = (casted c, Some t))
        \<or> (\<not> (\<exists>t \<in> set tbl. is_active t = Some True \<and> customer_id t \<noteq> None \<and>
                customer_id t = customer_id c) \<and> j = (casted c, None)))"
proof -
  have "j \<in> set (joined (new_df_casted new_data) (delta_df tbl)) \<longleftrightarrow>
      (\<exists>c \<in> set new_data. j \<in> set (left_join_row (delta_df tbl) (casted c)))"
    unfolding set_joined new_df_casted_map set_map by blast
  then show ?thesis unfolding in_left_join_row_delta .
qed

lemma in_final_changes:
  assumes "list_all complete tbl" and "list_all complete new_data"
  shows "x \<in> set (final_changes d tbl new_data) \<longleftrightarrow>
     (\<exists>c \<in> set new_data.
        (\<exists>t \<in> set tbl. is_active t = Some True \<and> customer_id t = customer_id c \<and>
            tracked t \<noteq> tracked (casted c) \<and> (x = closed_row_of d t \<or> x = new_row_of d (casted c)))
        \<or> ((\<forall>t \<in> set tbl. is_active t = Some True \<longrightarrow> customer_id t \<noteq> customer_id c)
            \<and> x = new_row_of d (casted c)))"
    (is "?L \<longleftrightarrow> ?R")
proof
  assume ?L
  then obtain j where j: "j \<in> set (joined (new_df_casted new_data) (delta_df tbl))"
    and x: "(changed_cond j = Some True \<and> (x = closed_version_row d j \<or> x = new_version_row d j))
            \<or> (new_key_cond j = Some True \<and> x = new_version_row d j)"
    unfolding set_final_changes Let_def by blast
  from j obtain c where c: "c \<in> set new_data"
    and jc: "(\<exists>t \<in> set tbl. is_active t = Some True \<and> customer_id t \<noteq> None \<and>
            customer_id t = customer_id c \<and> j = (casted c, Some t))
        \<or> (\<not> (\<exists>t \<in> set tbl. is_active t = Some True \<and> customer_id t \<noteq> None \<and>
                customer_id t = customer_id c) \<and> j = (casted c, None))"
    unfolding in_joined by blast
  from c assms(2) have cc: "complete c" by (simp add: list_all_iff)
  then have kc: "customer_id c \<noteq> None" by (simp add: complete_def)
  from jc show ?R
  proof
    assume "\<exists>t \<in> set tbl. is_active t = Some True \<and> customer_id t \<noteq> None \<and>
            customer_id t = customer_id c \<and> j = (casted c, Some t)"
    then obtain t where t: "t \<in> set tbl" "is_active t = Some True"
      "customer_id t = customer_id c" "j = (casted c, Some t)" by blast
    from t(1) assms(1) have ct: "complete t" by (simp add: list_all_iff)
    from t(3) kc have "new_key_cond j \<noteq> Some True"
      unfolding t(4) by (simp add: new_key_cond_iff)
    with x have ch: "changed_cond j = Some True"
      and xx: "x = closed_version_row d j \<or> x = new_version_row d j" by blast+
    from ch have "tracked t \<noteq> tracked (casted c)"
      unfolding t(4) changed_cond_complete [OF cc [folded complete_casted] ct]
      by (simp add: tracked_new_row_of)
    moreover from xx have "x = closed_row_of d t \<or> x = new_row_of d (casted c)"
      unfolding t(4) by (simp add: closed_version_row_of_stored new_version_row_of_batch)
    ultimately show ?R using c t by blast
  next
    assume a: "\<not> (\<exists>t \<in> set tbl. is_active t = Some True \<and> customer_id t \<noteq> None \<and>
                customer_id t = customer_id c) \<and> j = (casted c, None)"
    then have jn: "j = (casted c, None)" by blast
    from a kc have no: "\<forall>t \<in> set tbl. is_active t = Some True \<longrightarrow> customer_id t \<noteq> customer_id c"
      by metis
    have "changed_cond j \<noteq> Some True" unfolding jn by (rule changed_cond_None)
    with x have "x = new_version_row d j" by blast
    then have "x = new_row_of d (casted c)" unfolding jn by (simp add: new_version_row_of_batch)
    with no c show ?R by blast
  qed
next
  assume ?R
  then obtain c where c: "c \<in> set new_data"
    and r: "(\<exists>t \<in> set tbl. is_active t = Some True \<and> customer_id t = customer_id c \<and>
            tracked t \<noteq> tracked (casted c) \<and> (x = closed_row_of d t \<or> x = new_row_of d (casted c)))
        \<or> ((\<forall>t \<in> set tbl. is_active t = Some True \<longrightarrow> customer_id t \<noteq> customer_id c)
            \<and> x = new_row_of d (casted c))" by blast
  from c assms(2) have cc: "complete c" by (simp add: list_all_iff)
  then have kc: "customer_id c \<noteq> None" by (simp add: complete_def)
  from r show ?L
  proof
    assume "\<exists>t \<in> set tbl. is_active t = Some True \<and> customer_id t = customer_id c \<and>
            tracked t \<noteq> tracked (casted c) \<and> (x = closed_row_of d t \<or> x = new_row_of d (casted c))"
    then obtain t where t: "t \<in> set tbl" "is_active t = Some True"
      "customer_id t = customer_id c" "tracked t \<noteq> tracked (casted c)"
      "x = closed_row_of d t \<or> x = new_row_of d (casted c)" by blast
    from t(1) assms(1) have ct: "complete t" by (simp add: list_all_iff)
    have ch: "changed_cond (casted c, Some t) = Some True"
      unfolding changed_cond_complete [OF cc [folded complete_casted] ct]
      using t(3,4) by (simp add: tracked_new_row_of customer_id_casted)
    from changed_pair_in_final_changes [OF c t(1) t(2) ch, of d] t(5)
    show ?L by blast
  next
    assume a: "(\<forall>t \<in> set tbl. is_active t = Some True \<longrightarrow> customer_id t \<noteq> customer_id c)
            \<and> x = new_row_of d (casted c)"
    then have "(casted c, None) \<in> set (joined (new_df_casted new_data) (delta_df tbl))"
      unfolding in_joined using c by blast
    moreover have "new_key_cond (casted c, None) = Some True"
      using kc by (simp add: new_key_cond_iff customer_id_casted)
    ultimately have "new_version_row d (casted c, None) \<in> set (final_changes d tbl new_data)"
      unfolding set_final_changes Let_def by blast
    with a show ?L by (simp add: new_version_row_of_batch)
  qed
qed

section \<open>No two rows of the changeset have the same key and attributes\<close>

lemma join_matches_active_rows:
  assumes "customer_id s \<noteq> None"
  shows "join_matches s (delta_df tbl) = active_rows_of (customer_id s) tbl"
proof -
  have "join_matches s (delta_df tbl) =
          filter (\<lambda>t. is_active t = Some True \<and> customer_id t \<noteq> None \<and>
                      customer_id t = customer_id s) tbl"
    unfolding join_matches_def delta_df_def sql_filter_def sql_eq_True filter_filter
    by (rule filter_cong) auto
  also have "\<dots> = filter (\<lambda>r. customer_id r = customer_id s \<and> is_active r = Some True) tbl"
    using assms by (intro filter_cong) auto
  finally show ?thesis by (simp add: active_rows_of_def)
qed

lemma active_rows_le1:
  assumes "single_active tbl"
  shows "length (active_rows_of k tbl) \<le> 1"
proof (cases "active_rows_of k tbl")
  case Nil
  then show ?thesis by simp
next
  case (Cons r rs)
  then have "r \<in> set (active_rows_of k tbl)" by simp
  then have r: "r \<in> set tbl" "customer_id r = k" by (simp_all add: active_rows_of_def)
  from assms r(1) have "length (active_rows_of (customer_id r) tbl) = 1"
    by (simp add: single_active_def list_all_iff)
  with r(2) show ?thesis by simp
qed

lemma map_fst_left_join_row:
  assumes "length (join_matches s ts) \<le> 1"
  shows "map fst (left_join_row ts s) = [s]"
proof (cases "join_matches s ts")
  case Nil
  then show ?thesis by (simp add: left_join_row_def)
next
  case (Cons t rest)
  with assms have "rest = []" by simp
  with Cons show ?thesis by (simp add: left_join_row_def)
qed

lemma map_fst_joined:
  assumes "\<forall>s \<in> set srcs. length (join_matches s ts) \<le> 1"
  shows "map fst (joined srcs ts) = srcs"
  using assms
proof (induction srcs)
  case Nil
  show ?case by (simp add: joined_Nil)
next
  case (Cons s srcs)
  then show ?case by (simp add: joined_Cons map_fst_left_join_row)
qed

lemma map_fst_joined_inv:
  assumes "single_active tbl" and "list_all complete new_data"
  shows "map fst (joined (new_df_casted new_data) (delta_df tbl)) = new_df_casted new_data"
proof (rule map_fst_joined, rule ballI)
  fix s assume "s \<in> set (new_df_casted new_data)"
  then obtain c where c: "c \<in> set new_data" "s = casted c"
    by (auto simp: new_df_casted_map)
  with assms(2) have "complete c" by (simp add: list_all_iff)
  then have k: "customer_id s \<noteq> None" unfolding c(2) by (simp add: complete_def casted_columns)
  show "length (join_matches s (delta_df tbl)) \<le> 1"
    unfolding join_matches_active_rows [OF k] by (rule active_rows_le1 [OF assms(1)])
qed

lemma changed_not_new_key:
  assumes "changed_cond j = Some True"
  shows "new_key_cond j \<noteq> Some True"
proof (cases j)
  case (Pair s topt)
  show ?thesis
  proof (cases topt)
    case None
    with assms Pair show ?thesis by (simp add: changed_cond_None)
  next
    case (Some t)
    from assms have "customer_id t \<noteq> None" unfolding Pair Some changed_cond_pair by blast
    then show ?thesis unfolding Pair Some by (simp add: new_key_cond_iff)
  qed
qed

lemma changed_tracked_differ:
  assumes "changed_cond j = Some True"
  shows "tracked (closed_version_row d j) \<noteq> tracked (new_version_row d j)"
proof (cases j)
  case (Pair s topt)
  show ?thesis
  proof (cases topt)
    case None
    with assms Pair show ?thesis by (simp add: changed_cond_None)
  next
    case (Some t)
    from assms have "differs (first_name t) (first_name s) \<or> differs (last_name t) (last_name s) \<or>
      differs (email t) (email s) \<or> differs (phone t) (phone s) \<or>
      differs (number_of_orders t) (number_of_orders s)"
      unfolding Pair Some changed_cond_pair by blast
    then show ?thesis
      unfolding Pair Some
      by (auto simp: tracked_def closed_version_row_def new_version_row_def src_def tgt_def
            differs_def)
  qed
qed

lemma customer_id_closed_version_row:
  assumes "changed_cond j = Some True"
  shows "customer_id (closed_version_row d j) = customer_id (fst j)"
proof (cases j)
  case (Pair s topt)
  show ?thesis
  proof (cases topt)
    case None
    with assms Pair show ?thesis by (simp add: changed_cond_None)
  next
    case (Some t)
    from assms have "customer_id t = customer_id s" unfolding Pair Some changed_cond_pair by blast
    then show ?thesis unfolding Pair Some by (simp add: closed_version_row_def tgt_def)
  qed
qed

lemma customer_id_new_version_row: "customer_id (new_version_row d j) = customer_id (fst j)"
  by (simp add: new_version_row_def src_def)

lemma distinct_map_via:
  assumes "distinct (map g xs)" and "\<And>x. x \<in> set xs \<Longrightarrow> g x = h (f x)"
  shows "distinct (map f xs)"
proof -
  from assms(2) have "map g xs = map h (map f xs)" by simp
  with assms(1) show ?thesis by (metis distinct_map)
qed

lemma disjoint_mapped:
  assumes "\<And>a b. a \<in> set xs \<Longrightarrow> b \<in> set ys \<Longrightarrow> h (f a) \<noteq> h (g b)"
  shows "set (map h (map f xs)) \<inter> set (map h (map g ys)) = {}"
proof (rule ccontr)
  assume "set (map h (map f xs)) \<inter> set (map h (map g ys)) \<noteq> {}"
  then obtain v where "v \<in> set (map h (map f xs))" "v \<in> set (map h (map g ys))" by blast
  then obtain a b where "a \<in> set xs" "v = h (f a)" "b \<in> set ys" "v = h (g b)" by auto
  with assms [of a b] show False by simp
qed

lemma distinct_final_changes:
  assumes "single_active tbl" and "list_all complete new_data"
    and "distinct (map customer_id new_data)"
  shows "distinct (map tracked (final_changes d tbl new_data))"
proof -
  let ?P = "joined (new_df_casted new_data) (delta_df tbl)"
  let ?key = "\<lambda>j::joined_row. customer_id (fst j)"
  let ?CH = "sql_filter changed_cond ?P"
  let ?NK = "sql_filter new_key_cond ?P"
  have m: "map fst ?P = new_df_casted new_data" by (rule map_fst_joined_inv [OF assms(1,2)])
  have "map ?key ?P = map customer_id (map fst ?P)" by (simp only: map_map o_def)
  also have "\<dots> = map customer_id (new_df_casted new_data)" by (simp only: m)
  also have "\<dots> = map customer_id new_data"
    by (simp add: new_df_casted_map customer_id_casted o_def)
  finally have "map ?key ?P = map customer_id new_data" .
  with assms(3) have dP: "distinct (map ?key ?P)" by (simp only:)
  then have inj: "inj_on ?key (set ?P)" by (simp add: distinct_map)
  have dCH: "distinct (map ?key ?CH)" and dNK: "distinct (map ?key ?NK)"
    using dP by (simp_all add: sql_filter_def distinct_map_filter)
  have d1: "distinct (map tracked (map (closed_version_row d) ?CH))"
  proof (rule distinct_map_via [where h = fst])
    have e: "map customer_id (map (closed_version_row d) ?CH) = map ?key ?CH"
      by (simp add: set_sql_filter customer_id_closed_version_row)
    show "distinct (map customer_id (map (closed_version_row d) ?CH))" unfolding e by (rule dCH)
  qed (simp add: fst_tracked)
  have d2: "distinct (map tracked (map (new_version_row d) ?CH))"
  proof (rule distinct_map_via [where h = fst])
    have e: "map customer_id (map (new_version_row d) ?CH) = map ?key ?CH"
      by (simp add: customer_id_new_version_row)
    show "distinct (map customer_id (map (new_version_row d) ?CH))" unfolding e by (rule dCH)
  qed (simp add: fst_tracked)
  have d3: "distinct (map tracked (map (new_version_row d) ?NK))"
  proof (rule distinct_map_via [where h = fst])
    have e: "map customer_id (map (new_version_row d) ?NK) = map ?key ?NK"
      by (simp add: customer_id_new_version_row)
    show "distinct (map customer_id (map (new_version_row d) ?NK))" unfolding e by (rule dNK)
  qed (simp add: fst_tracked)
  have same: "j1 = j2" if "j1 \<in> set ?P" "j2 \<in> set ?P" "tracked x1 = tracked x2"
    "customer_id x1 = customer_id (fst j1)" "customer_id x2 = customer_id (fst j2)"
    for j1 j2 and x1 x2 :: dim_row
  proof -
    from that(3) have "customer_id x1 = customer_id x2" by (metis fst_tracked)
    with that(4,5) have k: "?key j1 = ?key j2" by simp
    show ?thesis by (rule inj_onD [OF inj k that(1,2)])
  qed
  have x12: "tracked (closed_version_row d j1) \<noteq> tracked (new_version_row d j2)"
    if "j1 \<in> set ?CH" "j2 \<in> set ?CH" for j1 j2
  proof
    assume e: "tracked (closed_version_row d j1) = tracked (new_version_row d j2)"
    from that have p: "j1 \<in> set ?P" "j2 \<in> set ?P" and c: "changed_cond j1 = Some True"
      by (simp_all add: set_sql_filter)
    have "j1 = j2"
      by (rule same [OF p e customer_id_closed_version_row [OF c] customer_id_new_version_row])
    with e changed_tracked_differ [OF c, of d] show False by simp
  qed
  have x13: "tracked (closed_version_row d j1) \<noteq> tracked (new_version_row d j2)"
    if "j1 \<in> set ?CH" "j2 \<in> set ?NK" for j1 j2
  proof
    assume e: "tracked (closed_version_row d j1) = tracked (new_version_row d j2)"
    from that have p: "j1 \<in> set ?P" "j2 \<in> set ?P" and c: "changed_cond j1 = Some True"
      and n: "new_key_cond j2 = Some True"
      by (simp_all add: set_sql_filter)
    have "j1 = j2"
      by (rule same [OF p e customer_id_closed_version_row [OF c] customer_id_new_version_row])
    with n changed_not_new_key [OF c] show False by simp
  qed
  have x23: "tracked (new_version_row d j1) \<noteq> tracked (new_version_row d j2)"
    if "j1 \<in> set ?CH" "j2 \<in> set ?NK" for j1 j2
  proof
    assume e: "tracked (new_version_row d j1) = tracked (new_version_row d j2)"
    from that have p: "j1 \<in> set ?P" "j2 \<in> set ?P" and c: "changed_cond j1 = Some True"
      and n: "new_key_cond j2 = Some True"
      by (simp_all add: set_sql_filter)
    have "j1 = j2"
      by (rule same [OF p e customer_id_new_version_row customer_id_new_version_row])
    with n changed_not_new_key [OF c] show False by simp
  qed
  have i12: "set (map tracked (map (closed_version_row d) ?CH))
               \<inter> set (map tracked (map (new_version_row d) ?CH)) = {}"
    by (rule disjoint_mapped) (rule x12)
  have i13: "set (map tracked (map (closed_version_row d) ?CH))
               \<inter> set (map tracked (map (new_version_row d) ?NK)) = {}"
    by (rule disjoint_mapped) (rule x13)
  have i23: "set (map tracked (map (new_version_row d) ?CH))
               \<inter> set (map tracked (map (new_version_row d) ?NK)) = {}"
    by (rule disjoint_mapped) (rule x23)
  have d23: "distinct (map tracked (map (new_version_row d) ?CH)
                       @ map tracked (map (new_version_row d) ?NK))"
    unfolding distinct_append by (intro conjI d2 d3 i23)
  have "set (map tracked (map (closed_version_row d) ?CH))
          \<inter> set (map tracked (map (new_version_row d) ?CH)
                  @ map tracked (map (new_version_row d) ?NK)) = {}"
    unfolding set_append Int_Un_distrib i12 i13 by (rule Un_empty_left)
  with d1 d23 have "distinct (map tracked (map (closed_version_row d) ?CH)
                  @ map tracked (map (new_version_row d) ?CH)
                  @ map tracked (map (new_version_row d) ?NK))"
    unfolding distinct_append [of "map tracked (map (closed_version_row d) ?CH)"]
    by (intro conjI)
  then show ?thesis
    by (simp add: final_changes_def Let_def updated_old_records_def updated_new_records_def
          new_records_def)
qed

section \<open>The active rows of a key after the merge\<close>

lemma batch_key_unique:
  assumes "distinct (map customer_id new_data)" and "c \<in> set new_data" and "c' \<in> set new_data"
    and "customer_id c = customer_id c'"
  shows "c = c'"
proof -
  from assms(1) have "inj_on customer_id (set new_data)" by (simp add: distinct_map)
  then show ?thesis by (rule inj_onD [OF _ assms(4) assms(2) assms(3)])
qed

lemma merge_of_batch_succeeds:
  assumes "scd_inv tbl" and "batch_ok new_data"
  shows "delta_merge tbl (final_changes d tbl new_data) =
           Inr (map (update_all (final_changes d tbl new_data)) tbl
                @ inserted_rows tbl (final_changes d tbl new_data))"
proof -
  from assms have "distinct (map tracked (final_changes d tbl new_data))"
    by (intro distinct_final_changes) (simp_all add: scd_inv_def batch_ok_def)
  then show ?thesis by (rule delta_merge_succeeds)
qed

lemma set_after_merge:
  assumes "scd_inv tbl" and "batch_ok new_data"
    and "delta_merge tbl (final_changes d tbl new_data) = Inr tbl'"
  shows "set tbl' = {t \<in> set tbl. tracked t \<notin> tracked ` set (final_changes d tbl new_data)}
                    \<union> set (final_changes d tbl new_data)"
    and "distinct (map tracked tbl')"
proof -
  let ?ch = "final_changes d tbl new_data"
  from assms(1,2) have d: "distinct (map tracked ?ch)"
    by (intro distinct_final_changes) (simp_all add: scd_inv_def batch_ok_def)
  from assms(1) have c: "list_all complete tbl" and dt: "distinct (map tracked tbl)"
    by (simp_all add: scd_inv_def)
  have t: "tbl' = map (update_all ?ch) tbl @ inserted_rows tbl ?ch"
    by (rule delta_merge_Inr [OF assms(3)])
  show "set tbl' = {t \<in> set tbl. tracked t \<notin> tracked ` set ?ch} \<union> set ?ch"
    unfolding t by (rule set_merged [OF c d])
  show "distinct (map tracked tbl')"
    unfolding t by (rule distinct_merged [OF c d dt])
qed

lemma change_has_batch_key:
  assumes "list_all complete tbl" and "list_all complete new_data"
    and "x \<in> set (final_changes d tbl new_data)"
  shows "\<exists>c \<in> set new_data. customer_id x = customer_id c"
proof -
  from assms(3) obtain c where c: "c \<in> set new_data"
    and r: "(\<exists>t \<in> set tbl. is_active t = Some True \<and> customer_id t = customer_id c \<and>
            tracked t \<noteq> tracked (casted c) \<and> (x = closed_row_of d t \<or> x = new_row_of d (casted c)))
        \<or> ((\<forall>t \<in> set tbl. is_active t = Some True \<longrightarrow> customer_id t \<noteq> customer_id c)
            \<and> x = new_row_of d (casted c))"
    unfolding in_final_changes [OF assms(1,2)] by blast
  from r have "customer_id x = customer_id c"
    by (auto simp: customer_id_closed_row_of customer_id_new_row_of customer_id_casted)
  with c show ?thesis by blast
qed

lemma active_change_is_new_row:
  assumes "list_all complete tbl" and "list_all complete new_data"
    and "x \<in> set (final_changes d tbl new_data)" and "is_active x = Some True"
  shows "\<exists>c \<in> set new_data. x = new_row_of d (casted c)"
proof -
  from assms(3) obtain c where c: "c \<in> set new_data"
    and r: "(\<exists>t \<in> set tbl. is_active t = Some True \<and> customer_id t = customer_id c \<and>
            tracked t \<noteq> tracked (casted c) \<and> (x = closed_row_of d t \<or> x = new_row_of d (casted c)))
        \<or> ((\<forall>t \<in> set tbl. is_active t = Some True \<longrightarrow> customer_id t \<noteq> customer_id c)
            \<and> x = new_row_of d (casted c))"
    unfolding in_final_changes [OF assms(1,2)] by blast
  from r assms(4) have "x = new_row_of d (casted c)"
    by (auto simp: is_active_closed_row_of)
  with c show ?thesis by blast
qed

lemma rows_of_untouched_key:
  assumes "scd_inv tbl" and "batch_ok new_data"
    and "delta_merge tbl (final_changes d tbl new_data) = Inr tbl'"
    and "\<forall>x \<in> set (final_changes d tbl new_data). customer_id x \<noteq> k"
  shows "{x \<in> set tbl'. customer_id x = k} = {x \<in> set tbl. customer_id x = k}"
proof -
  let ?ch = "final_changes d tbl new_data"
  note s = set_after_merge(1) [OF assms(1-3)]
  have "tracked t \<notin> tracked ` set ?ch" if "customer_id t = k" for t :: dim_row
  proof
    assume "tracked t \<in> tracked ` set ?ch"
    then obtain y where y: "y \<in> set ?ch" "tracked t = tracked y" by blast
    from y(2) have "customer_id t = customer_id y" by (metis fst_tracked)
    with that have "customer_id y = k" by simp
    moreover from assms(4) y(1) have "customer_id y \<noteq> k" by (rule bspec)
    ultimately show False by (rule notE [rotated])
  qed
  then have a: "\<And>t. t \<in> set tbl \<Longrightarrow> customer_id t = k \<Longrightarrow> t \<in> set tbl'"
    unfolding s by simp
  have b: "\<And>x. x \<in> set tbl' \<Longrightarrow> customer_id x = k \<Longrightarrow> x \<in> set tbl"
  proof -
    fix x assume x: "x \<in> set tbl'" "customer_id x = k"
    from assms(4) x(2) have "x \<notin> set ?ch" by (metis)
    with x(1) show "x \<in> set tbl" unfolding s by simp
  qed
  show ?thesis
  proof (intro equalityI subsetI)
    fix x assume "x \<in> {x \<in> set tbl'. customer_id x = k}"
    then show "x \<in> {x \<in> set tbl. customer_id x = k}" using b by simp
  next
    fix x assume "x \<in> {x \<in> set tbl. customer_id x = k}"
    then show "x \<in> {x \<in> set tbl'. customer_id x = k}" using a by simp
  qed
qed

lemma active_after_new_version:
  assumes "scd_inv tbl" and "batch_ok new_data"
    and "delta_merge tbl (final_changes d tbl new_data) = Inr tbl'"
    and "c \<in> set new_data"
    and "(\<forall>t \<in> set tbl. is_active t = Some True \<longrightarrow> customer_id t \<noteq> customer_id c) \<or>
         (\<exists>t \<in> set tbl. is_active t = Some True \<and> customer_id t = customer_id c \<and>
             tracked t \<noteq> tracked (casted c))"
  shows "{x \<in> set tbl'. customer_id x = customer_id c \<and> is_active x = Some True}
           = {new_row_of d (casted c)}"
proof -
  let ?ch = "final_changes d tbl new_data"
  from assms(1) have ct: "list_all complete tbl" and sa: "single_active tbl"
    by (simp_all add: scd_inv_def)
  from assms(2) have cb: "list_all complete new_data" and db: "distinct (map customer_id new_data)"
    by (simp_all add: batch_ok_def)
  note s = set_after_merge(1) [OF assms(1-3)]
  note inch = in_final_changes [OF ct cb]
  have n: "new_row_of d (casted c) \<in> set ?ch"
    unfolding inch using assms(4,5) by blast
  then have n': "new_row_of d (casted c) \<in> set tbl'" unfolding s by blast
  have only: "x = new_row_of d (casted c)"
    if x: "x \<in> set tbl'" "customer_id x = customer_id c" "is_active x = Some True" for x
  proof (cases "x \<in> set ?ch")
    case True
    from active_change_is_new_row [OF ct cb True x(3)]
    obtain c' where c': "c' \<in> set new_data" "x = new_row_of d (casted c')" by blast
    with x(2) have "customer_id c' = customer_id c" by (simp add: customer_id_new_row_of customer_id_casted)
    with batch_key_unique [OF db c'(1) assms(4)] have "c' = c" by simp
    with c'(2) show ?thesis by simp
  next
    case False
    with x(1) have xt: "x \<in> set tbl" and xn: "tracked x \<notin> tracked ` set ?ch"
      unfolding s by blast+
    from assms(5) show ?thesis
    proof
      assume "\<forall>t \<in> set tbl. is_active t = Some True \<longrightarrow> customer_id t \<noteq> customer_id c"
      with xt x(2,3) show ?thesis by blast
    next
      assume "\<exists>t \<in> set tbl. is_active t = Some True \<and> customer_id t = customer_id c \<and>
             tracked t \<noteq> tracked (casted c)"
      then obtain t where t: "t \<in> set tbl" "is_active t = Some True"
        "customer_id t = customer_id c" "tracked t \<noteq> tracked (casted c)" by blast
      from x(2) t(3) have "customer_id x = customer_id t" by simp
      from single_active_unique [OF sa xt x(3) t(1) t(2) this] have "x = t" .
      moreover have "closed_row_of d t \<in> set ?ch"
        unfolding inch using assms(4) t by blast
      then have "tracked (closed_row_of d t) \<in> tracked ` set ?ch" by (rule imageI)
      ultimately have "tracked x \<in> tracked ` set ?ch" by (simp add: tracked_closed_row_of)
      with xn show ?thesis by blast
    qed
  qed
  show ?thesis
  proof (intro equalityI subsetI)
    fix x assume "x \<in> {x \<in> set tbl'. customer_id x = customer_id c \<and> is_active x = Some True}"
    then have "x = new_row_of d (casted c)" using only by blast
    then show "x \<in> {new_row_of d (casted c)}" by simp
  next
    fix x assume "x \<in> {new_row_of d (casted c)}"
    then have "x = new_row_of d (casted c)" by simp
    with n' show "x \<in> {x \<in> set tbl'. customer_id x = customer_id c \<and> is_active x = Some True}"
      by (simp add: customer_id_new_row_of customer_id_casted is_active_new_row_of)
  qed
qed

lemma no_change_for_unchanged_key:
  assumes "scd_inv tbl" and "batch_ok new_data"
    and "c \<in> set new_data" and "t \<in> set tbl" and "is_active t = Some True"
    and "customer_id t = customer_id c" and "tracked t = tracked (casted c)"
  shows "\<forall>x \<in> set (final_changes d tbl new_data). customer_id x \<noteq> customer_id c"
proof
  fix x assume xin: "x \<in> set (final_changes d tbl new_data)"
  from assms(1) have ct: "list_all complete tbl" and sa: "single_active tbl"
    by (simp_all add: scd_inv_def)
  from assms(2) have cb: "list_all complete new_data" and db: "distinct (map customer_id new_data)"
    by (simp_all add: batch_ok_def)
  show "customer_id x \<noteq> customer_id c"
  proof
    assume k: "customer_id x = customer_id c"
    from xin obtain c' where c': "c' \<in> set new_data"
      and r: "(\<exists>t \<in> set tbl. is_active t = Some True \<and> customer_id t = customer_id c' \<and>
            tracked t \<noteq> tracked (casted c') \<and> (x = closed_row_of d t \<or> x = new_row_of d (casted c')))
        \<or> ((\<forall>t \<in> set tbl. is_active t = Some True \<longrightarrow> customer_id t \<noteq> customer_id c')
            \<and> x = new_row_of d (casted c'))"
      unfolding in_final_changes [OF ct cb] by blast
    from r have "customer_id x = customer_id c'"
      by (auto simp: customer_id_closed_row_of customer_id_new_row_of customer_id_casted)
    with k have "customer_id c' = customer_id c" by simp
    from batch_key_unique [OF db c' assms(3) this] have e: "c' = c" .
    from r show False
    proof
      assume "\<exists>t \<in> set tbl. is_active t = Some True \<and> customer_id t = customer_id c' \<and>
            tracked t \<noteq> tracked (casted c') \<and> (x = closed_row_of d t \<or> x = new_row_of d (casted c'))"
      then obtain t' where t': "t' \<in> set tbl" "is_active t' = Some True"
        "customer_id t' = customer_id c" "tracked t' \<noteq> tracked (casted c)" unfolding e by blast
      from t'(3) assms(6) have "customer_id t' = customer_id t" by simp
      from single_active_unique [OF sa t'(1,2) assms(4,5) this] have "t' = t" .
      with t'(4) assms(7) show False by simp
    next
      assume "(\<forall>t \<in> set tbl. is_active t = Some True \<longrightarrow> customer_id t \<noteq> customer_id c')
            \<and> x = new_row_of d (casted c')"
      with assms(4,5,6) show False unfolding e by blast
    qed
  qed
qed

section \<open>A run keeps the invariant\<close>

lemma job_Inr_reconcile:
  assumes "dim_customers_scd w = Some tbl"
    and "dim_customers_scd_etl_job glue d new_data w = Inr w'"
  shows "\<exists>tbl'. dim_customers_scd w' = Some tbl' \<and> reconcile d new_data tbl = Inr tbl'"
proof (cases "new_data = []")
  case True
  with assms show ?thesis
    by (auto simp: dim_customers_scd_etl_job_def reconcile_def emit_def)
next
  case False
  show ?thesis
  proof (cases "delta_merge tbl (final_changes d tbl new_data)")
    case (Inl e)
    with assms False show ?thesis
      by (simp add: dim_customers_scd_etl_job_def Let_def createDataFrame_Inr split: sum.splits)
  next
    case (Inr tbl')
    with assms False show ?thesis
      by (auto simp: dim_customers_scd_etl_job_def reconcile_def emit_def Let_def
            createDataFrame_Inr split: sum.splits)
  qed
qed

lemma job_state:
  assumes "dim_customers_scd w = Some tbl" and "reconcile d new_data tbl = Inr tbl'"
    and "new_data = [] \<or> types_determined new_data"
  shows "dim_customers_scd (state_after (dim_customers_scd_etl_job glue d new_data w)) = Some tbl'"
proof (cases glue)
  case (Client outcome)
  from job_table [OF assms, of outcome] show ?thesis
    unfolding Client by (auto simp: state_after_def)
next
  case (ClientRaises e)
  show ?thesis
  proof (cases "new_data = []")
    case True
    with assms show ?thesis
      by (simp add: dim_customers_scd_etl_job_def reconcile_def emit_def state_after_def)
  next
    case False
    with assms have m: "delta_merge tbl (final_changes d tbl new_data) = Inr tbl'"
      and t: "types_determined new_data" by (simp_all add: reconcile_def)
    from job_client_raises [OF assms(1) False t m, of e] show ?thesis
      unfolding ClientRaises by (auto simp: state_after_def)
  qed
qed

lemma singleton_filter:
  assumes "distinct xs" and "{x \<in> set xs. P x} = {a}"
  shows "filter P xs = [a]"
proof -
  have d: "distinct (filter P xs)" using assms(1) by simp
  have s: "set (filter P xs) = {a}" using assms(2) by simp
  show ?thesis
  proof (cases "filter P xs")
    case Nil
    with s show ?thesis by simp
  next
    case (Cons y ys)
    with s have y: "y = a" and sub: "set ys \<subseteq> {a}" by auto
    from d Cons y have "a \<notin> set ys" by simp
    with sub have "ys = []" by (cases ys) auto
    with Cons y show ?thesis by simp
  qed
qed

lemma active_set_unique:
  assumes "single_active tbl" and "t \<in> set tbl" and "is_active t = Some True"
  shows "{x \<in> set tbl. customer_id x = customer_id t \<and> is_active x = Some True} = {t}"
proof (intro equalityI subsetI)
  fix x assume "x \<in> {x \<in> set tbl. customer_id x = customer_id t \<and> is_active x = Some True}"
  then have x: "x \<in> set tbl" "is_active x = Some True" "customer_id x = customer_id t" by simp_all
  from single_active_unique [OF assms(1) x(1,2) assms(2,3) x(3)] show "x \<in> {t}" by simp
next
  fix x assume "x \<in> {t}"
  with assms(2,3) show "x \<in> {x \<in> set tbl. customer_id x = customer_id t \<and> is_active x = Some True}"
    by simp
qed

lemma active_after_unchanged:
  assumes "scd_inv tbl" and "batch_ok new_data"
    and "delta_merge tbl (final_changes d tbl new_data) = Inr tbl'"
    and "\<forall>x \<in> set (final_changes d tbl new_data). customer_id x \<noteq> customer_id t"
    and "t \<in> set tbl" and "is_active t = Some True"
  shows "{x \<in> set tbl'. customer_id x = customer_id t \<and> is_active x = Some True} = {t}"
proof -
  from assms(1) have sa: "single_active tbl" by (simp add: scd_inv_def)
  have "{x \<in> set tbl'. customer_id x = customer_id t \<and> is_active x = Some True}
          = {x \<in> {x \<in> set tbl'. customer_id x = customer_id t}. is_active x = Some True}"
    by blast
  also have "\<dots> = {x \<in> {x \<in> set tbl. customer_id x = customer_id t}. is_active x = Some True}"
    unfolding rows_of_untouched_key [OF assms(1-4)] ..
  also have "\<dots> = {x \<in> set tbl. customer_id x = customer_id t \<and> is_active x = Some True}"
    by blast
  also have "\<dots> = {t}" by (rule active_set_unique [OF sa assms(5,6)])
  finally show ?thesis .
qed

lemma active_after_batch_key:
  assumes "scd_inv tbl" and "batch_ok new_data"
    and "delta_merge tbl (final_changes d tbl new_data) = Inr tbl'"
    and "c \<in> set new_data"
  shows "\<exists>a. {x \<in> set tbl'. customer_id x = customer_id c \<and> is_active x = Some True} = {a}
             \<and> tracked a = tracked (casted c)"
proof (cases "\<exists>t \<in> set tbl. is_active t = Some True \<and> customer_id t = customer_id c \<and>
                tracked t = tracked (casted c)")
  case True
  then obtain t where t: "t \<in> set tbl" "is_active t = Some True"
    "customer_id t = customer_id c" "tracked t = tracked (casted c)" by blast
  have "\<forall>x \<in> set (final_changes d tbl new_data). customer_id x \<noteq> customer_id c"
    by (rule no_change_for_unchanged_key [OF assms(1,2,4) t])
  then have "\<forall>x \<in> set (final_changes d tbl new_data). customer_id x \<noteq> customer_id t"
    unfolding t(3) .
  from active_after_unchanged [OF assms(1-3) this t(1,2)]
  have "{x \<in> set tbl'. customer_id x = customer_id c \<and> is_active x = Some True} = {t}"
    unfolding t(3) .
  with t(4) show ?thesis by blast
next
  case False
  then have "(\<forall>t \<in> set tbl. is_active t = Some True \<longrightarrow> customer_id t \<noteq> customer_id c) \<or>
         (\<exists>t \<in> set tbl. is_active t = Some True \<and> customer_id t = customer_id c \<and>
             tracked t \<noteq> tracked (casted c))" by blast
  from active_after_new_version [OF assms(1-4) this]
  have "{x \<in> set tbl'. customer_id x = customer_id c \<and> is_active x = Some True}
          = {new_row_of d (casted c)}" .
  then show ?thesis using tracked_new_row_of by blast
qed

lemma complete_after_merge:
  assumes "scd_inv tbl" and "batch_ok new_data"
    and "delta_merge tbl (final_changes d tbl new_data) = Inr tbl'"
  shows "list_all complete tbl'"
proof -
  from assms(1) have ct: "list_all complete tbl" by (simp add: scd_inv_def)
  from assms(2) have cb: "list_all complete new_data" by (simp add: batch_ok_def)
  note s = set_after_merge(1) [OF assms(1-3)]
  have "complete x" if "x \<in> set tbl'" for x
  proof (cases "x \<in> set (final_changes d tbl new_data)")
    case True
    then obtain c where c: "c \<in> set new_data"
      and r: "(\<exists>t \<in> set tbl. is_active t = Some True \<and> customer_id t = customer_id c \<and>
            tracked t \<noteq> tracked (casted c) \<and> (x = closed_row_of d t \<or> x = new_row_of d (casted c)))
        \<or> ((\<forall>t \<in> set tbl. is_active t = Some True \<longrightarrow> customer_id t \<noteq> customer_id c)
            \<and> x = new_row_of d (casted c))"
      unfolding in_final_changes [OF ct cb] by blast
    from c cb have cc: "complete c" by (simp add: list_all_iff)
    from r consider t where "t \<in> set tbl" "x = closed_row_of d t" | "x = new_row_of d (casted c)"
      by blast
    then show ?thesis
    proof cases
      case 1
      with ct have "complete t" by (simp add: list_all_iff)
      with 1 show ?thesis by (simp add: complete_closed_row_of)
    next
      case 2
      with cc show ?thesis by (simp add: complete_new_row_of complete_casted)
    qed
  next
    case False
    with that have "x \<in> set tbl" unfolding s by blast
    with ct show ?thesis by (simp add: list_all_iff)
  qed
  then show ?thesis by (simp add: list_all_iff)
qed

lemma scd_inv_after_merge:
  assumes "scd_inv tbl" and "batch_ok new_data"
    and "delta_merge tbl (final_changes d tbl new_data) = Inr tbl'"
  shows "scd_inv tbl'"
proof -
  from assms(1) have ct: "list_all complete tbl" and sa: "single_active tbl"
    by (simp_all add: scd_inv_def)
  from assms(2) have cb: "list_all complete new_data" by (simp add: batch_ok_def)
  note s = set_after_merge(1) [OF assms(1-3)]
  have dt: "distinct (map tracked tbl')" by (rule set_after_merge(2) [OF assms(1-3)])
  then have di: "distinct tbl'" by (simp add: distinct_map)
  have "\<exists>a. {x \<in> set tbl'. customer_id x = customer_id r \<and> is_active x = Some True} = {a}"
    if r: "r \<in> set tbl'" for r
  proof (cases "\<exists>c \<in> set new_data. customer_id c = customer_id r")
    case True
    then obtain c where c: "c \<in> set new_data" "customer_id c = customer_id r" by blast
    from active_after_batch_key [OF assms(1-3) c(1)] show ?thesis unfolding c(2) by blast
  next
    case False
    have no: "\<forall>x \<in> set (final_changes d tbl new_data). customer_id x \<noteq> customer_id r"
    proof
      fix x assume "x \<in> set (final_changes d tbl new_data)"
      from change_has_batch_key [OF ct cb this] False
      show "customer_id x \<noteq> customer_id r" by metis
    qed
    then have "r \<notin> set (final_changes d tbl new_data)" by blast
    with r have rt: "r \<in> set tbl" unfolding s by blast
    from single_active_exists [OF sa rt] obtain t where
      t: "t \<in> set tbl" "is_active t = Some True" "customer_id t = customer_id r" by blast
    from no have "\<forall>x \<in> set (final_changes d tbl new_data). customer_id x \<noteq> customer_id t"
      unfolding t(3) .
    from active_after_unchanged [OF assms(1-3) this t(1,2)] show ?thesis
      unfolding t(3) by blast
  qed
  then have "single_active tbl'" by (rule single_activeI [OF di])
  with complete_after_merge [OF assms] dt show ?thesis by (simp add: scd_inv_def)
qed

lemma scd_inv_reconcile:
  assumes "scd_inv tbl" and "batch_ok new_data"
  shows "\<exists>tbl'. reconcile d new_data tbl = Inr tbl' \<and> scd_inv tbl'"
proof (cases "new_data = []")
  case True
  with assms(1) show ?thesis by (simp add: reconcile_def)
next
  case False
  let ?tbl' = "map (update_all (final_changes d tbl new_data)) tbl
                @ inserted_rows tbl (final_changes d tbl new_data)"
  have m: "delta_merge tbl (final_changes d tbl new_data) = Inr ?tbl'"
    by (rule merge_of_batch_succeeds [OF assms])
  from scd_inv_after_merge [OF assms m] m False show ?thesis
    by (simp add: reconcile_def)
qed

lemma batch_ok_types:
  assumes "batch_ok new_data"
  shows "new_data = [] \<or> types_determined new_data"
  using assms by (simp add: batch_ok_def)

lemma scd_inv_job:
  assumes "scd_inv tbl" and "batch_ok new_data" and "dim_customers_scd w = Some tbl"
  shows "\<exists>w' tbl'. dim_customers_scd_etl_job (Client outcome) d new_data w = Inr w' \<and>
           dim_customers_scd w' = Some tbl' \<and> scd_inv tbl'"
proof -
  from scd_inv_reconcile [OF assms(1,2), of d]
  obtain tbl' where t: "reconcile d new_data tbl = Inr tbl'" "scd_inv tbl'" by blast
  from job_table [OF assms(3) t(1) batch_ok_types [OF assms(2)], of outcome] t(2)
  show ?thesis by blast
qed

lemma scd_inv_run_jobs:
  assumes "scd_inv tbl" and "list_all (\<lambda>r. batch_ok (snd (snd r))) runs"
    and "dim_customers_scd w = Some tbl"
  shows "\<exists>tbl'. dim_customers_scd (state_after (run_jobs runs w)) = Some tbl' \<and> scd_inv tbl' \<and>
           (list_all (\<lambda>r. client_created (fst r)) runs \<longrightarrow> (\<exists>w'. run_jobs runs w = Inr w'))"
  using assms
proof (induction runs arbitrary: tbl w)
  case Nil
  then show ?case by (simp add: state_after_def)
next
  case (Cons r runs)
  obtain glue d new_data where r: "r = (glue, d, new_data)" by (cases r)
  from Cons.prems(2) have ok: "batch_ok new_data"
    and rest: "list_all (\<lambda>r. batch_ok (snd (snd r))) runs"
    by (simp_all add: r)
  from scd_inv_reconcile [OF Cons.prems(1) ok, of d]
  obtain tbl1 where t1: "reconcile d new_data tbl = Inr tbl1" "scd_inv tbl1" by blast
  note st = job_state [OF Cons.prems(3) t1(1) batch_ok_types [OF ok], of glue]
  show ?case
  proof (cases "dim_customers_scd_etl_job glue d new_data w")
    case (Inr w1)
    with st have d1: "dim_customers_scd w1 = Some tbl1" by (simp add: state_after_def)
    from Cons.IH [OF t1(2) rest d1] Inr show ?thesis by (auto simp: r)
  next
    case (Inl p)
    obtain e w1 where p: "p = (e, w1)" by (cases p)
    from st have d1: "dim_customers_scd w1 = Some tbl1"
      unfolding Inl p by (simp add: state_after_def)
    have "\<not> client_created glue"
    proof
      assume "client_created glue"
      then obtain outcome where "glue = Client outcome"
        by (cases glue) (simp_all add: client_created_def)
      with job_table [OF Cons.prems(3) t1(1) batch_ok_types [OF ok], of outcome] Inl
      show False by simp
    qed
    with d1 t1(2) show ?thesis by (simp add: r Inl p state_after_def)
  qed
qed

lemma changed_key_after_merge:
  assumes "scd_inv tbl" and "batch_ok new_data"
    and "delta_merge tbl (final_changes d tbl new_data) = Inr tbl'"
    and "c \<in> set new_data" and "t \<in> set tbl" and "is_active t = Some True"
    and "customer_id t = customer_id c" and "tracked t \<noteq> tracked (casted c)"
  shows "closed_row_of d t \<in> set tbl'" and "t \<notin> set tbl'"
    and "active_rows_of (customer_id c) tbl' = [new_row_of d (casted c)]"
proof -
  let ?ch = "final_changes d tbl new_data"
  from assms(1) have ct: "list_all complete tbl" by (simp add: scd_inv_def)
  from assms(2) have cb: "list_all complete new_data" and db: "distinct (map customer_id new_data)"
    by (simp_all add: batch_ok_def)
  note s = set_after_merge(1) [OF assms(1-3)]
  have cl: "closed_row_of d t \<in> set ?ch"
    unfolding in_final_changes [OF ct cb] using assms(4-8) by blast
  then show "closed_row_of d t \<in> set tbl'" unfolding s by blast
  show "t \<notin> set tbl'"
  proof
    assume "t \<in> set tbl'"
    then consider "tracked t \<notin> tracked ` set ?ch" | "t \<in> set ?ch" unfolding s by blast
    then show False
    proof cases
      case 1
      moreover from cl have "tracked (closed_row_of d t) \<in> tracked ` set ?ch" by (rule imageI)
      ultimately show False by (simp add: tracked_closed_row_of)
    next
      case 2
      from active_change_is_new_row [OF ct cb 2 assms(6)]
      obtain c' where c': "c' \<in> set new_data" "t = new_row_of d (casted c')" by blast
      from c'(2) have "customer_id t = customer_id c'" by (simp add: customer_id_new_row_of customer_id_casted)
      with assms(7) have "customer_id c' = customer_id c" by simp
      from batch_key_unique [OF db c'(1) assms(4) this] have "c' = c" .
      with c'(2) have "tracked t = tracked (casted c)" by (simp add: tracked_new_row_of)
      with assms(8) show False by simp
    qed
  qed
  have "(\<forall>t \<in> set tbl. is_active t = Some True \<longrightarrow> customer_id t \<noteq> customer_id c) \<or>
         (\<exists>t \<in> set tbl. is_active t = Some True \<and> customer_id t = customer_id c \<and>
             tracked t \<noteq> tracked (casted c))"
    using assms(5-8) by blast
  from active_after_new_version [OF assms(1-4) this]
  have a: "{x \<in> set tbl'. customer_id x = customer_id c \<and> is_active x = Some True}
          = {new_row_of d (casted c)}" .
  from set_after_merge(2) [OF assms(1-3)] have "distinct tbl'" by (simp add: distinct_map)
  from singleton_filter [OF this a]
  show "active_rows_of (customer_id c) tbl' = [new_row_of d (casted c)]"
    by (simp add: active_rows_of_def)
qed

section \<open>The single-active invariant\<close>

text \<open>
  Claim C1, as the code has it. Let the table satisfy the single-active invariant, let
  every stored row have its natural key and tracked attributes, and let no two stored rows
  have the same key and tracked attributes. Take a sequence of runs whose batches have
  their keys and tracked attributes, each key once in a batch, and in every batch that is
  not empty a value in some record for every column. Then the state the sequence leaves,
  whether every run returns or one raises because the Glue client cannot be made, has a
  table in which every key present has exactly one active row (and which has the other
  two properties again); and when every Glue client is made, every run returns. After
  one such run, for every batch record that differs, its number of orders taken as cast
  to a 32-bit integer, from the active row of its key, the closed version of that row is
  in the table, the row itself is not, and the new version, with the columns of the
  record as cast, is the only active row of the key.
\<close>

theorem single_active_invariant_is_kept:
  assumes "scd_inv tbl" and "dim_customers_scd w = Some tbl"
    and "list_all (\<lambda>r. batch_ok (snd (snd r))) runs" and "batch_ok new_data"
  shows "(\<exists>tbl'. dim_customers_scd (state_after (run_jobs runs w)) = Some tbl' \<and>
            single_active tbl' \<and> scd_inv tbl') \<and>
         (list_all (\<lambda>r. client_created (fst r)) runs \<longrightarrow> (\<exists>w'. run_jobs runs w = Inr w')) \<and>
         (\<exists>w' tbl'. dim_customers_scd_etl_job (Client outcome) d new_data w = Inr w' \<and>
            dim_customers_scd w' = Some tbl' \<and> single_active tbl' \<and> scd_inv tbl' \<and>
            (\<forall>c \<in> set new_data. \<forall>t \<in> set tbl.
               is_active t = Some True \<and> customer_id t = customer_id c \<and>
               tracked t \<noteq> tracked (casted c) \<longrightarrow>
               closed_row_of d t \<in> set tbl' \<and> t \<notin> set tbl' \<and>
               active_rows_of (customer_id c) tbl' = [new_row_of d (casted c)]))"
proof (intro conjI)
  from scd_inv_run_jobs [OF assms(1,3,2)]
  obtain tbl' where r: "dim_customers_scd (state_after (run_jobs runs w)) = Some tbl'"
    "scd_inv tbl'"
    "list_all (\<lambda>r. client_created (fst r)) runs \<longrightarrow> (\<exists>w'. run_jobs runs w = Inr w')"
    by blast
  from r(1,2) show "\<exists>tbl'. dim_customers_scd (state_after (run_jobs runs w)) = Some tbl' \<and>
            single_active tbl' \<and> scd_inv tbl'"
    by (auto simp: scd_inv_def)
  from r(3) show "list_all (\<lambda>r. client_created (fst r)) runs \<longrightarrow> (\<exists>w'. run_jobs runs w = Inr w')" .
  from scd_inv_reconcile [OF assms(1,4), of d]
  obtain tbl' where t: "reconcile d new_data tbl = Inr tbl'" "scd_inv tbl'" by blast
  from job_table [OF assms(2) t(1) batch_ok_types [OF assms(4)], of outcome]
  obtain w' where w': "dim_customers_scd_etl_job (Client outcome) d new_data w = Inr w'"
    "dim_customers_scd w' = Some tbl'" by blast
  from t(2) have sa: "single_active tbl'" by (simp add: scd_inv_def)
  have ch: "closed_row_of d t \<in> set tbl' \<and> t \<notin> set tbl' \<and>
               active_rows_of (customer_id c) tbl' = [new_row_of d (casted c)]"
    if c: "c \<in> set new_data" and t': "t \<in> set tbl"
      and a: "is_active t = Some True \<and> customer_id t = customer_id c \<and>
              tracked t \<noteq> tracked (casted c)"
    for c t
  proof -
    from c have ne: "new_data \<noteq> []" by auto
    with t(1) have m: "delta_merge tbl (final_changes d tbl new_data) = Inr tbl'"
      by (simp add: reconcile_def)
    from a have a1: "is_active t = Some True" and a2: "customer_id t = customer_id c"
      and a3: "tracked t \<noteq> tracked (casted c)" by blast+
    from changed_key_after_merge [OF assms(1,4) m c t' a1 a2 a3] show ?thesis by blast
  qed
  show "\<exists>w' tbl'. dim_customers_scd_etl_job (Client outcome) d new_data w = Inr w' \<and>
            dim_customers_scd w' = Some tbl' \<and> single_active tbl' \<and> scd_inv tbl' \<and>
            (\<forall>c \<in> set new_data. \<forall>t \<in> set tbl.
               is_active t = Some True \<and> customer_id t = customer_id c \<and>
               tracked t \<noteq> tracked (casted c) \<longrightarrow>
               closed_row_of d t \<in> set tbl' \<and> t \<notin> set tbl' \<and>
               active_rows_of (customer_id c) tbl' = [new_row_of d (casted c)])"
  proof (intro exI conjI ballI impI)
    show "dim_customers_scd_etl_job (Client outcome) d new_data w = Inr w'" by (rule w'(1))
    show "dim_customers_scd w' = Some tbl'" by (rule w'(2))
    show "single_active tbl'" by (rule sa)
    show "scd_inv tbl'" by (rule t(2))
  next
    fix c t assume "c \<in> set new_data" "t \<in> set tbl"
      "is_active t = Some True \<and> customer_id t = customer_id c \<and> tracked t \<noteq> tracked (casted c)"
    from ch [OF this] show "closed_row_of d t \<in> set tbl'" "t \<notin> set tbl'"
      "active_rows_of (customer_id c) tbl' = [new_row_of d (casted c)]" by blast+
  qed
qed

lemma inv_example: "scd_inv [alice_stored]"
  by code_simp

lemma batch_example: "batch_ok [alice_batch, bob_batch]"
  by code_simp

lemma job_example:
  "map_sum (map_prod id dim_customers_scd) dim_customers_scd
     (dim_customers_scd_etl_job (Client CrawlerRunningException) 19875
        [alice_batch, bob_batch] world0)
   = Inr (Some merged_example)"
  by code_simp

lemma runs_example:
  "dim_customers_scd
     (state_after (run_jobs [(Client CrawlerRunningException, 19875, [alice_batch, bob_batch])]
                     world0))
   = Some merged_example"
  by code_simp

lemma changed_key_example:
  "is_active alice_stored = Some True \<and> customer_id alice_stored = customer_id alice_batch \<and>
   tracked alice_stored \<noteq> tracked (casted alice_batch)"
  by code_simp

lemma client_example: "client_created (Client CrawlerRunningException)"
  by (simp add: client_created_def)

theorem single_active_invariant_is_kept_witness:
  "scd_inv [alice_stored] \<and> dim_customers_scd world0 = Some [alice_stored] \<and>
   batch_ok [alice_batch, bob_batch] \<and>
   (\<exists>w'. run_jobs [(Client CrawlerRunningException, 19875, [alice_batch, bob_batch])] world0
            = Inr w') \<and>
   dim_customers_scd
     (state_after (run_jobs [(Client CrawlerRunningException, 19875, [alice_batch, bob_batch])]
                     world0))
   = Some merged_example \<and>
   single_active merged_example \<and>
   closed_row_of 19875 alice_stored \<in> set merged_example \<and>
   active_rows_of (customer_id alice_batch) merged_example
     = [new_row_of 19875 (casted alice_batch)]"
proof -
  have h1: "scd_inv [alice_stored]" by (rule inv_example)
  have h2: "dim_customers_scd world0 = Some [alice_stored]" by (simp add: world0_def)
  have h4: "batch_ok [alice_batch, bob_batch]" by (rule batch_example)
  have h3: "list_all (\<lambda>r. batch_ok (snd (snd r)))
              [(Client CrawlerRunningException, 19875, [alice_batch, bob_batch])]"
    using h4 by simp
  have h5: "list_all (\<lambda>r. client_created (fst r))
              [(Client CrawlerRunningException, 19875, [alice_batch, bob_batch])]"
    using client_example by simp
  note w = single_active_invariant_is_kept [OF h1 h2 h3 h4, of CrawlerRunningException 19875]
  have r: "\<exists>w'. run_jobs [(Client CrawlerRunningException, 19875, [alice_batch, bob_batch])] world0
             = Inr w'"
    by (rule w [THEN conjunct2, THEN conjunct1, THEN mp, OF h5])
  from w [THEN conjunct1]
  obtain tbl1 where s1: "dim_customers_scd
     (state_after (run_jobs [(Client CrawlerRunningException, 19875, [alice_batch, bob_batch])]
                     world0)) = Some tbl1 \<and> single_active tbl1 \<and> scd_inv tbl1"
    by (rule exE)
  from s1 [THEN conjunct1] have e1: "tbl1 = merged_example" unfolding runs_example by simp
  have sa: "single_active merged_example"
    using s1 [THEN conjunct2, THEN conjunct1] unfolding e1 .
  from w [THEN conjunct2, THEN conjunct2]
  obtain w' where "\<exists>tbl'. dim_customers_scd_etl_job (Client CrawlerRunningException) 19875
            [alice_batch, bob_batch] world0 = Inr w' \<and>
            dim_customers_scd w' = Some tbl' \<and> single_active tbl' \<and> scd_inv tbl' \<and>
            (\<forall>c \<in> set [alice_batch, bob_batch]. \<forall>t \<in> set [alice_stored].
               is_active t = Some True \<and> customer_id t = customer_id c \<and>
               tracked t \<noteq> tracked (casted c) \<longrightarrow>
               closed_row_of 19875 t \<in> set tbl' \<and> t \<notin> set tbl' \<and>
               active_rows_of (customer_id c) tbl' = [new_row_of 19875 (casted c)])"
    by (rule exE)
  then obtain tbl' where s2: "dim_customers_scd_etl_job (Client CrawlerRunningException) 19875
            [alice_batch, bob_batch] world0 = Inr w' \<and>
            dim_customers_scd w' = Some tbl' \<and> single_active tbl' \<and> scd_inv tbl' \<and>
            (\<forall>c \<in> set [alice_batch, bob_batch]. \<forall>t \<in> set [alice_stored].
               is_active t = Some True \<and> customer_id t = customer_id c \<and>
               tracked t \<noteq> tracked (casted c) \<longrightarrow>
               closed_row_of 19875 t \<in> set tbl' \<and> t \<notin> set tbl' \<and>
               active_rows_of (customer_id c) tbl' = [new_row_of 19875 (casted c)])"
    by (rule exE)
  note j = s2 [THEN conjunct1]
  note dw = s2 [THEN conjunct2, THEN conjunct1]
  note q = s2 [THEN conjunct2, THEN conjunct2, THEN conjunct2, THEN conjunct2]
  from job_example have "dim_customers_scd w' = Some merged_example" unfolding j by simp
  with dw have e2: "tbl' = merged_example" by simp
  have ca: "alice_batch \<in> set [alice_batch, bob_batch]" by simp
  have ta: "alice_stored \<in> set [alice_stored]" by simp
  note k = q [THEN bspec, OF ca, THEN bspec, OF ta, THEN mp, OF changed_key_example,
              unfolded e2]
  show ?thesis
    by (intro conjI h1 h2 h4 r runs_example sa k [THEN conjunct1]
          k [THEN conjunct2, THEN conjunct2])
qed

text \<open>
  The claim as the specification words it fails in three ways, each from a table that
  satisfies the single-active invariant and with a batch whose types can be inferred. A
  batch with the same new key twice inserts two active rows of that key. When the active
  row has a NULL tracked attribute, its closed version does not match it and is inserted
  beside it, so the row stays active next to the new version. When two closed versions
  have the values of the new version, the new version is written over both, and the key
  has two active rows.
\<close>

theorem single_active_fails_without_the_side_conditions:
  "single_active [] \<and>
   map_sum (map_prod id dim_customers_scd) dim_customers_scd
     (dim_customers_scd_etl_job (Client CrawlerRunningException) 19875 [bob_batch, bob_batch]
        world_empty)
   = Inr (Some [new_row_of 19875 (casted bob_batch), new_row_of 19875 (casted bob_batch)]) \<and>
   \<not> single_active [new_row_of 19875 (casted bob_batch), new_row_of 19875 (casted bob_batch)] \<and>
   single_active [alice_stored_no_phone] \<and>
   map_sum (map_prod id dim_customers_scd) dim_customers_scd
     (dim_customers_scd_etl_job (Client CrawlerRunningException) 19875 [alice_batch]
        (world0\<lparr>dim_customers_scd := Some [alice_stored_no_phone]\<rparr>))
   = Inr (Some [alice_stored_no_phone, closed_row_of 19875 alice_stored_no_phone,
                new_row_of 19875 (casted alice_batch)]) \<and>
   \<not> single_active [alice_stored_no_phone, closed_row_of 19875 alice_stored_no_phone,
                    new_row_of 19875 (casted alice_batch)] \<and>
   single_active [alice_three_closed, alice_three_closed_again, alice_stored] \<and>
   map_sum (map_prod id dim_customers_scd) dim_customers_scd
     (dim_customers_scd_etl_job (Client CrawlerRunningException) 19875 [alice_batch]
        (world0\<lparr>dim_customers_scd :=
                   Some [alice_three_closed, alice_three_closed_again, alice_stored]\<rparr>))
   = Inr (Some [new_row_of 19875 (casted alice_batch), new_row_of 19875 (casted alice_batch),
                closed_row_of 19875 alice_stored]) \<and>
   \<not> single_active [new_row_of 19875 (casted alice_batch), new_row_of 19875 (casted alice_batch),
                    closed_row_of 19875 alice_stored]"
  by code_simp

section \<open>Records that bring nothing new, and the same batch again\<close>

lemma same_tracked_not_changed:
  assumes "tracked t = tracked s"
  shows "changed_cond (s, Some t) \<noteq> Some True"
proof -
  from assms have "first_name t = first_name s" "last_name t = last_name s" "email t = email s"
    "phone t = phone s" "number_of_orders t = number_of_orders s"
    by (simp_all add: tracked_def)
  then show ?thesis by (simp add: changed_cond_pair differs_def)
qed

lemma rows_of_unchanged_pair:
  assumes "customer_id t \<noteq> None" and "tracked t = tracked s"
  shows "rows_of_pair d (s, Some t) = ([], [], [])"
proof -
  have "changed_cond (s, Some t) \<noteq> Some True" by (rule same_tracked_not_changed [OF assms(2)])
  moreover have "new_key_cond (s, Some t) \<noteq> Some True"
    using assms(1) by (simp add: new_key_cond_iff)
  ultimately show ?thesis
    by (simp add: rows_of_pair_def updated_old_records_def updated_new_records_def
          new_records_def sql_filter_Cons sql_filter_Nil)
qed

lemma no_changes_when_batch_is_stored:
  assumes "\<forall>c \<in> set new_data. \<forall>t \<in> set tbl.
             is_active t = Some True \<and> customer_id t = customer_id c \<longrightarrow> tracked t = tracked (casted c)"
    and "\<forall>c \<in> set new_data. customer_id c \<noteq> None \<longrightarrow>
             (\<exists>t \<in> set tbl. is_active t = Some True \<and> customer_id t = customer_id c)"
  shows "final_changes d tbl new_data = []"
proof -
  let ?js = "set (joined (new_df_casted new_data) (delta_df tbl))"
  have none: "changed_cond j \<noteq> Some True \<and> new_key_cond j \<noteq> Some True" if "j \<in> ?js" for j
  proof -
    from that obtain c where c: "c \<in> set new_data"
      and jc: "(\<exists>t \<in> set tbl. is_active t = Some True \<and> customer_id t \<noteq> None \<and>
            customer_id t = customer_id c \<and> j = (casted c, Some t))
        \<or> (\<not> (\<exists>t \<in> set tbl. is_active t = Some True \<and> customer_id t \<noteq> None \<and>
                customer_id t = customer_id c) \<and> j = (casted c, None))"
      unfolding in_joined by blast
    from jc show ?thesis
    proof
      assume "\<exists>t \<in> set tbl. is_active t = Some True \<and> customer_id t \<noteq> None \<and>
            customer_id t = customer_id c \<and> j = (casted c, Some t)"
      then obtain t where t: "t \<in> set tbl" "is_active t = Some True" "customer_id t \<noteq> None"
        "customer_id t = customer_id c" "j = (casted c, Some t)" by blast
      from assms(1) c t(1,2,4) have "tracked t = tracked (casted c)" by blast
      then have "tracked t = tracked (casted c)" by (simp add: tracked_new_row_of)
      then have "changed_cond j \<noteq> Some True" unfolding t(5) by (rule same_tracked_not_changed)
      moreover have "new_key_cond j \<noteq> Some True"
        unfolding t(5) using t(3) by (simp add: new_key_cond_iff)
      ultimately show ?thesis ..
    next
      assume a: "\<not> (\<exists>t \<in> set tbl. is_active t = Some True \<and> customer_id t \<noteq> None \<and>
                customer_id t = customer_id c) \<and> j = (casted c, None)"
      then have j: "j = (casted c, None)" by blast
      have "customer_id c = None"
      proof (rule ccontr)
        assume k: "customer_id c \<noteq> None"
        with assms(2) c obtain t where "t \<in> set tbl" "is_active t = Some True"
          "customer_id t = customer_id c" by blast
        with k a show False by metis
      qed
      then have "new_key_cond j \<noteq> Some True"
        unfolding j by (simp add: new_key_cond_iff customer_id_casted)
      moreover have "changed_cond j \<noteq> Some True" unfolding j by (rule changed_cond_None)
      ultimately show ?thesis by blast
    qed
  qed
  have "set (final_changes d tbl new_data) = {}"
    unfolding set_final_changes Let_def using none by blast
  then show ?thesis by simp
qed

lemma in_merged_or_changed:
  assumes "delta_merge tbl changes = Inr tbl'" and "x \<in> set tbl'"
  shows "x \<in> set tbl \<or> x \<in> set changes"
proof -
  have t: "tbl' = map (update_all changes) tbl @ inserted_rows tbl changes"
    by (rule delta_merge_Inr [OF assms(1)])
  from assms(2) consider r where "r \<in> set tbl" "x = update_all changes r"
    | "x \<in> set (inserted_rows tbl changes)" unfolding t by auto
  then show ?thesis
  proof cases
    case 1
    with update_all_cases [of changes r] show ?thesis by metis
  next
    case 2
    then show ?thesis by (simp add: inserted_rows_def)
  qed
qed

lemma complete_final_changes:
  assumes "list_all complete tbl" and "list_all complete new_data"
    and "x \<in> set (final_changes d tbl new_data)"
  shows "complete x"
proof -
  from assms(3) obtain c where c: "c \<in> set new_data"
    and r: "(\<exists>t \<in> set tbl. is_active t = Some True \<and> customer_id t = customer_id c \<and>
            tracked t \<noteq> tracked (casted c) \<and> (x = closed_row_of d t \<or> x = new_row_of d (casted c)))
        \<or> ((\<forall>t \<in> set tbl. is_active t = Some True \<longrightarrow> customer_id t \<noteq> customer_id c)
            \<and> x = new_row_of d (casted c))"
    unfolding in_final_changes [OF assms(1,2)] by blast
  from c assms(2) have cc: "complete c" by (simp add: list_all_iff)
  from r consider t where "t \<in> set tbl" "x = closed_row_of d t" | "x = new_row_of d (casted c)"
    by blast
  then show ?thesis
  proof cases
    case 1
    with assms(1) have "complete t" by (simp add: list_all_iff)
    with 1 show ?thesis by (simp add: complete_closed_row_of)
  next
    case 2
    with cc show ?thesis by (simp add: complete_new_row_of complete_casted)
  qed
qed

lemma complete_after_any_merge:
  assumes "list_all complete tbl" and "list_all complete new_data"
    and "delta_merge tbl (final_changes d tbl new_data) = Inr tbl'"
  shows "list_all complete tbl'"
proof -
  have "complete x" if "x \<in> set tbl'" for x
  proof -
    from in_merged_or_changed [OF assms(3) that] show ?thesis
    proof
      assume "x \<in> set tbl"
      with assms(1) show ?thesis by (simp add: list_all_iff)
    next
      assume "x \<in> set (final_changes d tbl new_data)"
      then show ?thesis by (rule complete_final_changes [OF assms(1,2)])
    qed
  qed
  then show ?thesis by (simp add: list_all_iff)
qed

lemma stored_values_stay:
  assumes "delta_merge tbl changes = Inr tbl'" and "t \<in> set tbl"
  shows "\<exists>r \<in> set tbl'. tracked r = tracked t"
proof -
  have "update_all changes t \<in> set tbl'"
    unfolding delta_merge_Inr [OF assms(1)] using assms(2) by simp
  then show ?thesis using tracked_update_all by blast
qed

lemma change_values_arrive:
  assumes "delta_merge tbl changes = Inr tbl'" and "x \<in> set changes"
  shows "\<exists>r \<in> set tbl'. tracked r = tracked x"
proof (cases "matched_rows tbl x = []")
  case True
  with assms(2) have "x \<in> set (inserted_rows tbl changes)" by (simp add: inserted_rows_def)
  then have "x \<in> set tbl'" unfolding delta_merge_Inr [OF assms(1)] by simp
  then show ?thesis by blast
next
  case False
  then obtain t where "t \<in> set (matched_rows tbl x)" by (cases "matched_rows tbl x") auto
  then have t: "t \<in> set tbl" "tracked t = tracked x" by (simp_all add: matched_rows_eq)
  from stored_values_stay [OF assms(1) t(1)] t(2) show ?thesis by simp
qed

lemma batch_values_arrive:
  assumes "list_all complete tbl" and "list_all complete new_data"
    and "delta_merge tbl (final_changes d tbl new_data) = Inr tbl'"
    and "c \<in> set new_data"
  shows "\<exists>r \<in> set tbl'. tracked r = tracked (casted c)"
proof (cases "\<exists>t \<in> set tbl. is_active t = Some True \<and> customer_id t = customer_id c \<and>
                tracked t = tracked (casted c)")
  case True
  then obtain t where "t \<in> set tbl" "tracked t = tracked (casted c)" by blast
  with stored_values_stay [OF assms(3), of t] show ?thesis by simp
next
  case False
  then have "new_row_of d (casted c) \<in> set (final_changes d tbl new_data)"
    unfolding in_final_changes [OF assms(1,2)] using assms(4) by blast
  from change_values_arrive [OF assms(3) this] show ?thesis
    by (simp add: tracked_new_row_of)
qed

lemma second_merge_inserts_nothing:
  assumes "list_all complete tbl" and "list_all complete new_data"
    and "delta_merge tbl (final_changes d tbl new_data) = Inr tbl1"
    and "delta_merge tbl1 (final_changes d2 tbl1 new_data) = Inr tbl2"
  shows "length tbl2 = length tbl1"
proof -
  let ?ch = "final_changes d2 tbl1 new_data"
  have c1: "list_all complete tbl1" by (rule complete_after_any_merge [OF assms(1-3)])
  have "matched_rows tbl1 x \<noteq> []" if x: "x \<in> set ?ch" for x
  proof -
    from x obtain c where c: "c \<in> set new_data"
      and r: "(\<exists>t \<in> set tbl1. is_active t = Some True \<and> customer_id t = customer_id c \<and>
            tracked t \<noteq> tracked (casted c) \<and> (x = closed_row_of d2 t \<or> x = new_row_of d2 (casted c)))
        \<or> ((\<forall>t \<in> set tbl1. is_active t = Some True \<longrightarrow> customer_id t \<noteq> customer_id c)
            \<and> x = new_row_of d2 (casted c))"
      unfolding in_final_changes [OF c1 assms(2)] by blast
    from r consider t where "t \<in> set tbl1" "x = closed_row_of d2 t" | "x = new_row_of d2 (casted c)"
      by blast
    then obtain r where r: "r \<in> set tbl1" "tracked r = tracked x"
    proof cases
      case 1
      then show ?thesis using that by (simp add: tracked_closed_row_of)
    next
      case 2
      from batch_values_arrive [OF assms(1-3) c] 2 show ?thesis
        using that by (auto simp: tracked_new_row_of)
    qed
    from r(1) c1 have "complete r" by (simp add: list_all_iff)
    with r have "r \<in> set (matched_rows tbl1 x)" by (simp add: matched_rows_eq)
    then show ?thesis by auto
  qed
  then have "inserted_rows tbl1 ?ch = []"
    by (simp add: inserted_rows_def filter_empty_conv)
  then show ?thesis unfolding delta_merge_Inr [OF assms(4)] by simp
qed

lemma rerun_changes_nothing:
  assumes "scd_inv tbl" and "batch_ok new_data"
    and "delta_merge tbl (final_changes d tbl new_data) = Inr tbl1"
  shows "final_changes d2 tbl1 new_data = []"
proof (rule no_changes_when_batch_is_stored)
  show "\<forall>c \<in> set new_data. \<forall>t \<in> set tbl1.
             is_active t = Some True \<and> customer_id t = customer_id c \<longrightarrow> tracked t = tracked (casted c)"
  proof (intro ballI impI)
    fix c t assume c: "c \<in> set new_data" and t: "t \<in> set tbl1"
      and a: "is_active t = Some True \<and> customer_id t = customer_id c"
    from active_after_batch_key [OF assms c] obtain a' where
      a': "{x \<in> set tbl1. customer_id x = customer_id c \<and> is_active x = Some True} = {a'}"
      "tracked a' = tracked (casted c)" by blast
    from t a have "t \<in> {x \<in> set tbl1. customer_id x = customer_id c \<and> is_active x = Some True}"
      by simp
    then have "t = a'" unfolding a'(1) by simp
    with a'(2) show "tracked t = tracked (casted c)" by simp
  qed
  show "\<forall>c \<in> set new_data. customer_id c \<noteq> None \<longrightarrow>
             (\<exists>t \<in> set tbl1. is_active t = Some True \<and> customer_id t = customer_id c)"
  proof (intro ballI impI)
    fix c assume c: "c \<in> set new_data"
    from active_after_batch_key [OF assms c] obtain a' where
      a': "{x \<in> set tbl1. customer_id x = customer_id c \<and> is_active x = Some True} = {a'}"
      by blast
    then have "a' \<in> {x \<in> set tbl1. customer_id x = customer_id c \<and> is_active x = Some True}"
      by simp
    then show "\<exists>t \<in> set tbl1. is_active t = Some True \<and> customer_id t = customer_id c"
      by blast
  qed
qed

lemma reconcile_twice_same_length:
  assumes "list_all complete tbl" and "list_all complete new_data"
    and "reconcile d new_data tbl = Inr tbl1" and "reconcile d2 new_data tbl1 = Inr tbl2"
  shows "length tbl2 = length tbl1"
proof (cases "new_data = []")
  case True
  with assms(4) show ?thesis by (simp add: reconcile_def)
next
  case False
  with assms(3,4) have "delta_merge tbl (final_changes d tbl new_data) = Inr tbl1"
    and "delta_merge tbl1 (final_changes d2 tbl1 new_data) = Inr tbl2"
    by (simp_all add: reconcile_def)
  then show ?thesis by (rule second_merge_inserts_nothing [OF assms(1,2)])
qed

lemma reconcile_twice_same_table:
  assumes "scd_inv tbl" and "batch_ok new_data"
  shows "\<exists>tbl1. reconcile d new_data tbl = Inr tbl1 \<and> final_changes d2 tbl1 new_data = []
            \<and> reconcile d2 new_data tbl1 = Inr tbl1"
proof (cases "new_data = []")
  case True
  then show ?thesis by (simp add: reconcile_def final_changes_def new_df_casted_map joined_Nil groups_Nil)
next
  case False
  let ?tbl1 = "map (update_all (final_changes d tbl new_data)) tbl
                @ inserted_rows tbl (final_changes d tbl new_data)"
  have m: "delta_merge tbl (final_changes d tbl new_data) = Inr ?tbl1"
    by (rule merge_of_batch_succeeds [OF assms])
  have e: "final_changes d2 ?tbl1 new_data = []"
    by (rule rerun_changes_nothing [OF assms m])
  have "reconcile d new_data tbl = Inr ?tbl1" using m False by (simp add: reconcile_def)
  moreover have "reconcile d2 new_data ?tbl1 = Inr ?tbl1"
    unfolding reconcile_def e using False by (simp add: delta_merge_Nil)
  ultimately show ?thesis using e by blast
qed

lemma run_jobs_one:
  "run_jobs [(glue, d, new_data)] w = Inr w1 \<longleftrightarrow>
     dim_customers_scd_etl_job glue d new_data w = Inr w1"
  by (cases "dim_customers_scd_etl_job glue d new_data w") auto

lemma run_jobs_two:
  "run_jobs [(glue, d, new_data), (glue2, d2, new_data2)] w = Inr w2 \<longleftrightarrow>
     (\<exists>w1. dim_customers_scd_etl_job glue d new_data w = Inr w1 \<and>
           dim_customers_scd_etl_job glue2 d2 new_data2 w1 = Inr w2)"
proof (cases "dim_customers_scd_etl_job glue d new_data w")
  case (Inl e)
  then show ?thesis by simp
next
  case (Inr w1)
  then show ?thesis
    by (cases "dim_customers_scd_etl_job glue2 d2 new_data2 w1") auto
qed

text \<open>
  Claim C6, as the code has it. A batch record joined with an active stored row that has
  the same natural key, not NULL, and the same tracked attributes, the number of orders
  of the record taken as cast to a 32-bit integer, puts no row in any of the three
  groups. When every batch record with a key has an active row of that key, and equals
  every active row of its key on the tracked attributes, the changeset is empty and the
  merge leaves the table as it is. When no stored row and no batch record has a NULL key
  or tracked attribute, a second run that returns, with the same batch, leaves the number
  of rows as the first run left it. When moreover the table satisfies the invariant of the
  runs, the batch has each key once and, if it is not empty, a value in some record for
  every column, and the Glue clients are made, both runs return and the second leaves the
  table exactly as the first left it.
\<close>

theorem unchanged_records_are_stable_and_rerun_adds_nothing:
  "(customer_id t \<noteq> None \<and> tracked t = tracked (casted c) \<longrightarrow>
      rows_of_pair d (casted c, Some t) = ([], [], [])) \<and>
   ((\<forall>c \<in> set new_data. \<forall>t \<in> set tbl.
        is_active t = Some True \<and> customer_id t = customer_id c \<longrightarrow>
        tracked t = tracked (casted c)) \<and>
    (\<forall>c \<in> set new_data. customer_id c \<noteq> None \<longrightarrow>
        (\<exists>t \<in> set tbl. is_active t = Some True \<and> customer_id t = customer_id c)) \<longrightarrow>
      final_changes d tbl new_data = [] \<and> reconcile d new_data tbl = Inr tbl) \<and>
   (list_all complete tbl \<and> list_all complete new_data \<and> dim_customers_scd w = Some tbl \<and>
    run_jobs [(glue, d, new_data)] w = Inr w1 \<and> dim_customers_scd w1 = Some tbl1 \<and>
    run_jobs [(glue, d, new_data), (glue2, d2, new_data)] w = Inr w2 \<and>
    dim_customers_scd w2 = Some tbl2 \<longrightarrow>
      length tbl2 = length tbl1) \<and>
   (scd_inv tbl \<and> batch_ok new_data \<and> dim_customers_scd w = Some tbl \<longrightarrow>
      (\<exists>v1 v2 tbl'.
         run_jobs [(Client outcome, d, new_data)] w = Inr v1 \<and>
         dim_customers_scd v1 = Some tbl' \<and>
         run_jobs [(Client outcome, d, new_data), (Client outcome2, d2, new_data)] w = Inr v2 \<and>
         dim_customers_scd v2 = Some tbl'))"
proof (intro conjI impI)
  assume "customer_id t \<noteq> None \<and> tracked t = tracked (casted c)"
  then have "customer_id t \<noteq> None" and "tracked t = tracked (casted c)"
    by simp_all
  then show "rows_of_pair d (casted c, Some t) = ([], [], [])"
    by (rule rows_of_unchanged_pair)
next
  assume a: "(\<forall>c \<in> set new_data. \<forall>t \<in> set tbl.
        is_active t = Some True \<and> customer_id t = customer_id c \<longrightarrow>
        tracked t = tracked (casted c)) \<and>
    (\<forall>c \<in> set new_data. customer_id c \<noteq> None \<longrightarrow>
        (\<exists>t \<in> set tbl. is_active t = Some True \<and> customer_id t = customer_id c))"
  show e: "final_changes d tbl new_data = []"
    by (rule no_changes_when_batch_is_stored [OF a [THEN conjunct1] a [THEN conjunct2]])
  show "reconcile d new_data tbl = Inr tbl"
    unfolding reconcile_def e by (simp add: delta_merge_Nil)
next
  assume a: "list_all complete tbl \<and> list_all complete new_data \<and> dim_customers_scd w = Some tbl \<and>
    run_jobs [(glue, d, new_data)] w = Inr w1 \<and> dim_customers_scd w1 = Some tbl1 \<and>
    run_jobs [(glue, d, new_data), (glue2, d2, new_data)] w = Inr w2 \<and>
    dim_customers_scd w2 = Some tbl2"
  then have ct: "list_all complete tbl" and cb: "list_all complete new_data"
    and w: "dim_customers_scd w = Some tbl"
    and r1: "run_jobs [(glue, d, new_data)] w = Inr w1"
    and d1: "dim_customers_scd w1 = Some tbl1"
    and r2: "run_jobs [(glue, d, new_data), (glue2, d2, new_data)] w = Inr w2"
    and d2: "dim_customers_scd w2 = Some tbl2"
    by blast+
  from r1 have j1: "dim_customers_scd_etl_job glue d new_data w = Inr w1"
    unfolding run_jobs_one .
  from r2 obtain v1 where j1': "dim_customers_scd_etl_job glue d new_data w = Inr v1"
    and j2: "dim_customers_scd_etl_job glue2 d2 new_data v1 = Inr w2"
    unfolding run_jobs_two by blast
  from j1 j1' have v: "v1 = w1" by simp
  from job_Inr_reconcile [OF w j1] d1 have t1: "reconcile d new_data tbl = Inr tbl1" by auto
  from job_Inr_reconcile [OF d1 j2 [unfolded v]] d2
  have t2: "reconcile d2 new_data tbl1 = Inr tbl2" by auto
  show "length tbl2 = length tbl1"
    by (rule reconcile_twice_same_length [OF ct cb t1 t2])
next
  assume a: "scd_inv tbl \<and> batch_ok new_data \<and> dim_customers_scd w = Some tbl"
  then have inv: "scd_inv tbl" and ok: "batch_ok new_data" and w: "dim_customers_scd w = Some tbl"
    by blast+
  note ty = batch_ok_types [OF ok]
  from reconcile_twice_same_table [OF inv ok, of d d2] obtain tbl' where
    t1: "reconcile d new_data tbl = Inr tbl'" "reconcile d2 new_data tbl' = Inr tbl'" by blast
  from job_table [OF w t1(1) ty, of outcome] obtain v1 where
    v1: "dim_customers_scd_etl_job (Client outcome) d new_data w = Inr v1"
    "dim_customers_scd v1 = Some tbl'" by blast
  from job_table [OF v1(2) t1(2) ty, of outcome2] obtain v2 where
    v2: "dim_customers_scd_etl_job (Client outcome2) d2 new_data v1 = Inr v2"
    "dim_customers_scd v2 = Some tbl'" by blast
  from v1 have r1: "run_jobs [(Client outcome, d, new_data)] w = Inr v1"
    unfolding run_jobs_one by blast
  from v1 v2 have r2: "run_jobs [(Client outcome, d, new_data), (Client outcome2, d2, new_data)] w
                 = Inr v2" unfolding run_jobs_two by blast
  from r1 v1(2) r2 v2(2)
  show "\<exists>v1 v2 tbl'.
         run_jobs [(Client outcome, d, new_data)] w = Inr v1 \<and>
         dim_customers_scd v1 = Some tbl' \<and>
         run_jobs [(Client outcome, d, new_data), (Client outcome2, d2, new_data)] w = Inr v2 \<and>
         dim_customers_scd v2 = Some tbl'" by blast
qed

lemma same_example:
  "customer_id alice_stored = Some 1 \<and> tracked alice_stored = tracked (casted alice_same) \<and>
   is_active alice_stored = Some True \<and> customer_id alice_same = Some 1"
  by code_simp

lemma complete_example:
  "list_all complete [alice_stored] \<and> list_all complete [alice_batch, bob_batch]"
  by code_simp

lemma rerun_example:
  "map_sum (map_prod id dim_customers_scd) dim_customers_scd
     (run_jobs [(Client CrawlerRunningException, 19875, [alice_batch, bob_batch])] world0)
     = Inr (Some merged_example) \<and>
   map_sum (map_prod id dim_customers_scd) dim_customers_scd
     (run_jobs [(Client CrawlerRunningException, 19875, [alice_batch, bob_batch]),
                (Client (Started ''dimCustomersScdCrawler''), 19876, [alice_batch, bob_batch])]
        world0)
     = Inr (Some merged_example)"
  by code_simp

theorem unchanged_records_are_stable_and_rerun_adds_nothing_witness:
  "customer_id alice_stored = Some 1 \<and> tracked alice_stored = tracked (casted alice_same) \<and>
   rows_of_pair 19875 (casted alice_same, Some alice_stored) = ([], [], []) \<and>
   final_changes 19875 [alice_stored] [alice_same] = [] \<and>
   reconcile 19875 [alice_same] [alice_stored] = Inr [alice_stored] \<and>
   list_all complete [alice_stored] \<and> list_all complete [alice_batch, bob_batch] \<and>
   scd_inv [alice_stored] \<and> batch_ok [alice_batch, bob_batch] \<and>
   dim_customers_scd world0 = Some [alice_stored] \<and>
   (\<exists>v1 v2.
      run_jobs [(Client CrawlerRunningException, 19875, [alice_batch, bob_batch])] world0
        = Inr v1 \<and>
      dim_customers_scd v1 = Some merged_example \<and>
      run_jobs [(Client CrawlerRunningException, 19875, [alice_batch, bob_batch]),
                (Client (Started ''dimCustomersScdCrawler''), 19876, [alice_batch, bob_batch])]
        world0 = Inr v2 \<and>
      dim_customers_scd v2 = Some merged_example) \<and>
   length merged_example = length merged_example"
proof -
  note s = same_example
  have s1: "customer_id alice_stored = Some 1" by (rule s [THEN conjunct1])
  have s2: "tracked alice_stored = tracked (casted alice_same)"
    by (rule s [THEN conjunct2, THEN conjunct1])
  have s3: "is_active alice_stored = Some True"
    by (rule s [THEN conjunct2, THEN conjunct2, THEN conjunct1])
  have s4: "customer_id alice_same = Some 1"
    by (rule s [THEN conjunct2, THEN conjunct2, THEN conjunct2])
  have k: "customer_id alice_stored \<noteq> None \<and> tracked alice_stored = tracked (casted alice_same)"
    using s1 s2 by simp
  note c = complete_example
  have h1: "scd_inv [alice_stored]" by (rule inv_example)
  have h2: "batch_ok [alice_batch, bob_batch]" by (rule batch_example)
  have h3: "dim_customers_scd world0 = Some [alice_stored]" by (simp add: world0_def)
  note e = rerun_example
  note w = unchanged_records_are_stable_and_rerun_adds_nothing
             [where t = alice_stored and c = alice_same and d = 19875
                and new_data = "[alice_batch, bob_batch]" and tbl = "[alice_stored]"
                and w = world0 and glue = "Client CrawlerRunningException"
                and ?glue2.0 = "Client (Started ''dimCustomersScdCrawler'')"
                and ?d2.0 = 19876 and outcome = CrawlerRunningException
                and ?outcome2.0 = "Started ''dimCustomersScdCrawler''"
                and ?tbl1.0 = merged_example and ?tbl2.0 = merged_example]
  note u = unchanged_records_are_stable_and_rerun_adds_nothing
             [where new_data = "[alice_same]" and tbl = "[alice_stored]" and d = 19875]
  have r: "rows_of_pair 19875 (casted alice_same, Some alice_stored) = ([], [], [])"
    by (rule w [THEN conjunct1, THEN mp, OF k])
  have q1: "\<forall>c \<in> set [alice_same]. \<forall>t \<in> set [alice_stored].
        is_active t = Some True \<and> customer_id t = customer_id c \<longrightarrow>
        tracked t = tracked (casted c)"
    using s2 by simp
  have q2: "\<forall>c \<in> set [alice_same]. customer_id c \<noteq> None \<longrightarrow>
        (\<exists>t \<in> set [alice_stored]. is_active t = Some True \<and> customer_id t = customer_id c)"
    using s1 s3 s4 by simp
  note n = u [THEN conjunct2, THEN conjunct1, THEN mp, OF conjI [OF q1 q2]]
  from w [THEN conjunct2, THEN conjunct2, THEN conjunct2, THEN mp,
          OF conjI [OF h1 conjI [OF h2 h3]]]
  obtain v1 where "\<exists>v2 tbl'.
      run_jobs [(Client CrawlerRunningException, 19875, [alice_batch, bob_batch])] world0
        = Inr v1 \<and>
      dim_customers_scd v1 = Some tbl' \<and>
      run_jobs [(Client CrawlerRunningException, 19875, [alice_batch, bob_batch]),
                (Client (Started ''dimCustomersScdCrawler''), 19876, [alice_batch, bob_batch])]
        world0 = Inr v2 \<and>
      dim_customers_scd v2 = Some tbl'"
    by (rule exE)
  then obtain v2 where "\<exists>tbl'.
      run_jobs [(Client CrawlerRunningException, 19875, [alice_batch, bob_batch])] world0
        = Inr v1 \<and>
      dim_customers_scd v1 = Some tbl' \<and>
      run_jobs [(Client CrawlerRunningException, 19875, [alice_batch, bob_batch]),
                (Client (Started ''dimCustomersScdCrawler''), 19876, [alice_batch, bob_batch])]
        world0 = Inr v2 \<and>
      dim_customers_scd v2 = Some tbl'"
    by (rule exE)
  then obtain tbl' where v: "run_jobs [(Client CrawlerRunningException, 19875, [alice_batch, bob_batch])] world0
        = Inr v1 \<and>
      dim_customers_scd v1 = Some tbl' \<and>
      run_jobs [(Client CrawlerRunningException, 19875, [alice_batch, bob_batch]),
                (Client (Started ''dimCustomersScdCrawler''), 19876, [alice_batch, bob_batch])]
        world0 = Inr v2 \<and>
      dim_customers_scd v2 = Some tbl'"
    by (rule exE)
  note r1 = v [THEN conjunct1]
  note r2 = v [THEN conjunct2, THEN conjunct2, THEN conjunct1]
  from e [THEN conjunct1] have d1: "dim_customers_scd v1 = Some merged_example"
    unfolding r1 by simp
  from e [THEN conjunct2] have d2: "dim_customers_scd v2 = Some merged_example"
    unfolding r2 by simp
  have l: "length merged_example = length merged_example"
    by (rule w [where ?w1.0 = v1 and ?w2.0 = v2, THEN conjunct2, THEN conjunct2, THEN conjunct1,
                THEN mp,
                OF conjI [OF c [THEN conjunct1] conjI [OF c [THEN conjunct2]
                   conjI [OF h3 conjI [OF r1 conjI [OF d1 conjI [OF r2 d2]]]]]]])
  have x: "\<exists>v1 v2.
      run_jobs [(Client CrawlerRunningException, 19875, [alice_batch, bob_batch])] world0
        = Inr v1 \<and>
      dim_customers_scd v1 = Some merged_example \<and>
      run_jobs [(Client CrawlerRunningException, 19875, [alice_batch, bob_batch]),
                (Client (Started ''dimCustomersScdCrawler''), 19876, [alice_batch, bob_batch])]
        world0 = Inr v2 \<and>
      dim_customers_scd v2 = Some merged_example"
    by (intro exI [of _ v1] exI [of _ v2] conjI r1 d1 r2 d2)
  show ?thesis
    by (intro conjI s1 s2 r n [THEN conjunct1] n [THEN conjunct2] c [THEN conjunct1]
          c [THEN conjunct2] h1 h2 h3 x l)
qed

text \<open>
  The claim as the specification words it fails when a stored row has a NULL tracked
  attribute: the first run leaves the row active beside its closed version and the new
  version, and the second run with the same batch, whose types can be inferred, inserts a
  closed version once more.
\<close>

theorem rerun_adds_a_row_when_an_attribute_is_null:
  "types_determined [alice_batch] \<and>
   map_sum (map_prod id dim_customers_scd) dim_customers_scd
     (run_jobs [(Client CrawlerRunningException, 19875, [alice_batch])]
        (world0\<lparr>dim_customers_scd := Some [alice_stored_no_phone]\<rparr>)) =
    Inr (Some [alice_stored_no_phone, closed_row_of 19875 alice_stored_no_phone,
               new_row_of 19875 (casted alice_batch)]) \<and>
   map_sum (map_prod id dim_customers_scd) dim_customers_scd
     (run_jobs [(Client CrawlerRunningException, 19875, [alice_batch]),
                (Client CrawlerRunningException, 19876, [alice_batch])]
        (world0\<lparr>dim_customers_scd := Some [alice_stored_no_phone]\<rparr>)) =
    Inr (Some [alice_stored_no_phone, closed_row_of 19875 alice_stored_no_phone,
               new_row_of 19876 (casted alice_batch), closed_row_of 19876 alice_stored_no_phone])"
  by code_simp

end
